theory Spec2Isabelle
  imports Main
begin

section \<open>Errors of the modelled C++ code\<close>

text \<open>
  Every way in which the modelled routines can leave their normal control flow is a
  value of this type: a failed \<^verbatim>\<open>assert\<close>, an exception thrown by the standard
  library, and signed integer overflow (undefined behaviour in C++, at which the model
  stops).
\<close>

datatype error =
    AssertionFailed
  | LengthError
  | SignedOverflow
  | TileNotReceived

section \<open>The staged eigensolver \<^verbatim>\<open>heev\<close> (src/src/heev.cc)\<close>

text \<open>
  \<^verbatim>\<open>heev\<close> runs on every process of the grid. The model is the program of one
  process, given its rank \<open>A.mpiRank()\<close>. The numerical stages are external kernels
  and are parameters of the model; the calls the process makes are logged in the order
  in which it makes them.
\<close>

datatype heev_event =
    Ev_he2hb
  | Ev_insertLocalTiles
  | Ev_he2hbGather
  | Ev_resize nat
  | Ev_hb2st
  | Ev_copyhb2st
  | Ev_sterf

record ('m, 'b, 'r) heev_kernels =
  he2hb :: "'m \<Rightarrow> 'm"
  he2hbGather :: "int \<Rightarrow> 'm \<Rightarrow> 'b"
  hb2st :: "'b \<Rightarrow> 'b"
  copyhb2st :: "'b \<Rightarrow> 'r list \<times> 'r list"
  sterf :: "'r list \<Rightarrow> 'r list \<Rightarrow> 'r list"

text \<open>
  What a process has when \<^verbatim>\<open>heev\<close> ends: the matrix \<open>A\<close>, the vector \<open>W\<close>, the log
  of its calls, the exception raised (if any), the content of its local band matrix
  \<open>Aband\<close>, and which tiles of \<open>Aband\<close> are local to it.
\<close>

record ('m, 'r, 'b) heev_state =
  hA :: 'm
  hW :: "'r list"
  htrace :: "heev_event list"
  raised :: "error option"
  hAband :: 'b
  hAband_local :: "nat \<Rightarrow> nat \<Rightarrow> bool"

text \<open>
  Modelled from the spec: the owning-process function of a distributed tile matrix,
  which is not under src/. It is deterministic over the grid coordinates, 2-D
  block-cyclic: on a \<open>p\<close> by \<open>q\<close> grid of processes, numbered by columns, tile
  \<open>(i, j)\<close> belongs to the process in grid row \<open>i mod p\<close> and grid column \<open>j mod q\<close>.
\<close>

definition tileRank :: "nat \<Rightarrow> nat \<Rightarrow> nat \<Rightarrow> nat \<Rightarrow> int" where
  "tileRank p q i j = int (i mod p + (j mod q) * p)"

text \<open>\<^verbatim>\<open>std::vector::resize(n)\<close>: keeps the first \<open>n\<close> elements and appends
  value-initialised ones (zero) up to length \<open>n\<close>.\<close>

definition resize_vec :: "nat \<Rightarrow> 'r::zero list \<Rightarrow> 'r list" where
  "resize_vec n W = take n W @ replicate (n - length W) 0"

text \<open>A kernel that receives a \<^verbatim>\<open>std::vector&\<close> writes its results into the
  existing storage, element by element; it cannot change the length of the vector.\<close>

definition store_into :: "'r list \<Rightarrow> 'r list \<Rightarrow> 'r list" where
  "store_into W vs = map (\<lambda>i. if i < length vs then vs ! i else W ! i) [0..<length W]"

text \<open>
  The body of \<^verbatim>\<open>heev\<close>. \<open>n\<close> is \<open>A.n()\<close>. \<open>Aband\<close> is constructed on a 1 by 1
  process grid (the arguments \<^verbatim>\<open>1, 1\<close> of its constructor), and
  \<^verbatim>\<open>insertLocalTiles\<close> gives a process the tiles that it owns. \<open>he2hbGather K r A\<close> is
  the content of the \<open>Aband\<close> of the process of rank \<open>r\<close> after the gather. On rank 0
  the vector \<^verbatim>\<open>std::vector<real_t> E(n - 1)\<close> is constructed after \<^verbatim>\<open>hb2st\<close>; for
  \<open>n = 0\<close> the \<^verbatim>\<open>int64_t\<close> value \<open>-1\<close> converts to the largest \<^verbatim>\<open>size_t\<close> and
  the constructor throws \<^verbatim>\<open>std::length_error\<close>.
\<close>

definition heev ::
  "('m, 'b, 'r::zero) heev_kernels \<Rightarrow> int \<Rightarrow> nat \<Rightarrow> 'm \<Rightarrow> 'r list \<Rightarrow> ('m, 'r, 'b) heev_state" where
  "heev K mpiRank n A W =
    (let A1 = he2hb K A;
         local = (\<lambda>i j. tileRank 1 1 i j = mpiRank);
         Aband = he2hbGather K mpiRank A1;
         W1 = resize_vec n W;
         tr = [Ev_he2hb, Ev_insertLocalTiles, Ev_he2hbGather, Ev_resize n]
     in if mpiRank = 0 then
          (let Aband2 = hb2st K Aband in
           if n = 0 then
             \<lparr>hA = A1, hW = W1, htrace = tr @ [Ev_hb2st], raised = Some LengthError,
              hAband = Aband2, hAband_local = local\<rparr>
           else
             (let E = replicate (n - 1) 0;
                  DE = copyhb2st K Aband2;
                  W2 = store_into W1 (fst DE);
                  E2 = store_into E (snd DE);
                  W3 = store_into W2 (sterf K W2 E2)
              in \<lparr>hA = A1, hW = W3,
                   htrace = tr @ [Ev_hb2st, Ev_copyhb2st, Ev_sterf], raised = None,
                   hAband = Aband2, hAband_local = local\<rparr>))
        else \<lparr>hA = A1, hW = W1, htrace = tr, raised = None,
              hAband = Aband, hAband_local = local\<rparr>)"

section \<open>Options, targets and machine integers\<close>

text \<open>The enumerations \<^verbatim>\<open>Target\<close> and \<^verbatim>\<open>Option\<close> of the library, and the
  integer member \<^verbatim>\<open>i_\<close> (here \<open>i_field\<close>) of an option's \<^verbatim>\<open>Value\<close>.\<close>

datatype Target = HostTask | HostNest | HostBatch | Devices

datatype Option = Lookahead | Target | Tolerance | MaxIterations | UseFallbackSolver

datatype Value = Value (i_field: int)

type_synonym Options = "Option \<Rightarrow> Value option"

definition INT_MAX :: int where
  "INT_MAX = 2147483647"

definition INT64_MAX :: int where
  "INT64_MAX = 9223372036854775807"

definition INT64_MIN :: int where
  "INT64_MIN = - 9223372036854775808"

text \<open>Conversion of an \<^verbatim>\<open>int64_t\<close> value to \<^verbatim>\<open>int\<close> (32 bits): the value modulo
  \<open>2^32\<close>, read as a signed number.\<close>

definition int64_to_int :: "int \<Rightarrow> int" where
  "int64_to_int x = (x + 2147483648) mod 4294967296 - 2147483648"

text \<open>Modelled from the spec: \<^verbatim>\<open>get_option\<close>, declared in a header that is not under
  src/. An option is configurable and has a default: the value stored under the key,
  or the default when the map has no entry for the key.\<close>

definition get_option :: "Options \<Rightarrow> Option \<Rightarrow> int \<Rightarrow> int" where
  "get_option opts key dflt = (case opts key of None \<Rightarrow> dflt | Some v \<Rightarrow> i_field v)"

section \<open>The mixed-precision refinement controller \<^verbatim>\<open>gesv_mixed\<close> (src/unnamed/part_000)\<close>

text \<open>
  The matrices are abstract: \<open>'h\<close> is a matrix in high precision, \<open>'l\<close> one in low
  precision, \<open>'p\<close> a pivot sequence, \<open>'n\<close> a vector of column norms and \<open>'c\<close> the
  type of the stopping threshold. The numerical routines the controller calls are
  external and are parameters of the model, each with the data flow of its call site:
  \<^item> \<open>stop_criterion opts A\<close> is \<^verbatim>\<open>cte = norm(Norm::Inf, A) * tol\<close>;
  \<^item> \<open>getrf_lo\<close> and \<open>getrf_hi\<close> return \<open>info\<close>, the factored matrix and the pivots;
  \<^item> \<open>gemm_hi A X R\<close> is \<^verbatim>\<open>gemm(-one, A, X, one, R)\<close>, the new \<open>R\<close>;
  \<^item> \<open>add_hi R X\<close> is \<^verbatim>\<open>add(one, R, one, X)\<close>, the new \<open>X\<close>;
  \<^item> \<open>mt_of\<close> is the number of block rows, \<open>decode_target\<close> reads a \<^verbatim>\<open>Target\<close>
    from an option's integer.
\<close>

record ('h, 'l, 'p, 'n, 'c) gesv_kernels =
  mt_of :: "'h \<Rightarrow> int"
  decode_target :: "int \<Rightarrow> Target"
  stop_criterion :: "Options \<Rightarrow> 'h \<Rightarrow> 'c"
  copy_hi_lo :: "'h \<Rightarrow> 'l"
  copy_lo_hi :: "'l \<Rightarrow> 'h"
  getrf_lo :: "'l \<Rightarrow> int \<times> 'l \<times> 'p"
  getrs_lo :: "'l \<Rightarrow> 'p \<Rightarrow> 'l \<Rightarrow> 'l"
  getrf_hi :: "'h \<Rightarrow> int \<times> 'h \<times> 'p"
  getrs_hi :: "'h \<Rightarrow> 'p \<Rightarrow> 'h \<Rightarrow> 'h"
  gemm_hi :: "'h \<Rightarrow> 'h \<Rightarrow> 'h \<Rightarrow> 'h"
  add_hi :: "'h \<Rightarrow> 'h \<Rightarrow> 'h"
  colNorms :: "'h \<Rightarrow> 'n"
  iterRefConverged :: "'n \<Rightarrow> 'n \<Rightarrow> 'c \<Rightarrow> bool"

text \<open>The calls to factorizations, solves and updates, logged in the order in which
  the controller makes them.\<close>

datatype gesv_call =
    Call_getrf_lo
  | Call_getrs_lo
  | Call_gemm_hi
  | Call_add_hi
  | Call_getrf_hi
  | Call_getrs_hi

datatype workspace_call = Call_tileGetAndHoldAllOnDevices | Call_clearWorkspace

text \<open>The variables that the refinement loop reads and writes.\<close>

record ('h, 'l) refine_state =
  sX :: 'h
  sR :: 'h
  sX_lo :: 'l
  siter :: int
  sconverged :: bool
  scalls :: "gesv_call list"

text \<open>What \<^verbatim>\<open>gesv_mixed\<close> leaves behind: the arguments passed by reference, the
  return value \<open>rinfo\<close>, the final value of the local \<open>converged\<close>, and the logs.\<close>

record ('h, 'p) gesv_result =
  rA :: 'h
  rpivots :: 'p
  rX :: 'h
  riter :: int
  rinfo :: int
  rconverged :: bool
  rcalls :: "gesv_call list"
  rworkspace :: "workspace_call list"

text \<open>The convergence test on the current iterate and residual.\<close>

definition converged_now ::
  "('h, 'l, 'p, 'n, 'c) gesv_kernels \<Rightarrow> 'c \<Rightarrow> ('h, 'l) refine_state \<Rightarrow> bool" where
  "converged_now K cte s = iterRefConverged K (colNorms K (sR s)) (colNorms K (sX s)) cte"

text \<open>The numerical work of one pass of the refinement loop: the residual goes to low
  precision, is solved with the low-precision factors, comes back as the correction,
  is added to the iterate, and the residual \<open>R = B - A X\<close> is recomputed.\<close>

definition refine_pass ::
  "('h, 'l, 'p, 'n, 'c) gesv_kernels \<Rightarrow> 'h \<Rightarrow> 'h \<Rightarrow> 'l \<Rightarrow> 'p \<Rightarrow>
   ('h, 'l) refine_state \<Rightarrow> ('h, 'l) refine_state" where
  "refine_pass K A B A_lo pivots s =
    (let X_lo1 = copy_hi_lo K (sR s);
         X_lo2 = getrs_lo K A_lo pivots X_lo1;
         R1 = copy_lo_hi K X_lo2;
         X1 = add_hi K R1 (sX s);
         R2 = gemm_hi K A X1 B
     in s\<lparr>sX := X1, sR := R2, sX_lo := X_lo2,
           scalls := scalls s @ [Call_getrs_lo, Call_add_hi, Call_gemm_hi]\<rparr>)"

text \<open>The first solve, before the loop: solve in low precision, convert the
  solution to high precision, and compute the residual \<open>R = B - A X\<close>.\<close>

definition initial_solve ::
  "('h, 'l, 'p, 'n, 'c) gesv_kernels \<Rightarrow> 'h \<Rightarrow> 'h \<Rightarrow> 'l \<Rightarrow> 'p \<Rightarrow> 'l \<Rightarrow>
   ('h, 'l) refine_state" where
  "initial_solve K A B A_lo pivots X_lo0 =
    (let X_lo1 = getrs_lo K A_lo pivots X_lo0;
         X1 = copy_lo_hi K X_lo1;
         R1 = gemm_hi K A X1 B
     in \<lparr>sX = X1, sR = R1, sX_lo = X_lo1, siter = 0, sconverged = False,
         scalls = [Call_getrf_lo, Call_getrs_lo, Call_gemm_hi]\<rparr>)"

text \<open>
  The loop \<^verbatim>\<open>for (int iiter = 0; iiter < itermax && ! converged; ++iiter)\<close>.
  \<open>iiter\<close> is a 32-bit \<^verbatim>\<open>int\<close> and \<open>itermax\<close> an \<^verbatim>\<open>int64_t\<close>. After a pass
  either \<^verbatim>\<open>iter = iiter+1\<close> or \<^verbatim>\<open>++iiter\<close> (or both) is evaluated, and both
  overflow when \<open>iiter\<close> is \<open>INT_MAX\<close>.
\<close>

function refine_loop ::
  "('h, 'l, 'p, 'n, 'c) gesv_kernels \<Rightarrow> 'h \<Rightarrow> 'h \<Rightarrow> 'l \<Rightarrow> 'p \<Rightarrow> 'c \<Rightarrow> int \<Rightarrow> int \<Rightarrow>
   ('h, 'l) refine_state \<Rightarrow> error + ('h, 'l) refine_state" where
  "refine_loop K A B A_lo pivots cte itermax iiter s =
    (if iiter < itermax \<and> \<not> sconverged s then
       (let s1 = refine_pass K A B A_lo pivots s in
        if INT_MAX \<le> iiter then Inl SignedOverflow
        else if converged_now K cte s1
          then refine_loop K A B A_lo pivots cte itermax (iiter + 1)
                 (s1\<lparr>siter := iiter + 1, sconverged := True\<rparr>)
          else refine_loop K A B A_lo pivots cte itermax (iiter + 1) s1)
     else Inr s)"
  by pat_completeness auto
termination
  by (relation "measure (\<lambda>(K, A, B, A_lo, pivots, cte, itermax, iiter, s). nat (itermax - iiter))")
     auto

text \<open>
  The body of \<^verbatim>\<open>gesv_mixed\<close>. The low-precision pivots overwrite \<open>pivots\<close>; the
  fallback's factorization overwrites \<open>A\<close> and \<open>pivots\<close>. \<^verbatim>\<open>-itermax - 1\<close> is
  computed in \<^verbatim>\<open>int64_t\<close> and stored into the \<^verbatim>\<open>int\<close> \<open>iter\<close>.
\<close>

definition gesv_mixed ::
  "('h, 'l, 'p, 'n, 'c) gesv_kernels \<Rightarrow> 'h \<Rightarrow> 'p \<Rightarrow> 'h \<Rightarrow> 'h \<Rightarrow> Options \<Rightarrow>
   error + ('h, 'p) gesv_result" where
  "gesv_mixed K A pivots B X opts =
    (let target = (case opts Target of None \<Rightarrow> HostTask | Some v \<Rightarrow> decode_target K (i_field v));
         itermax = get_option opts MaxIterations 30;
         use_fallback = (get_option opts UseFallbackSolver 1 \<noteq> 0)
     in if mt_of K B \<noteq> mt_of K A then Inl AssertionFailed
        else
         (let hold = (if target = Devices
                      then [Call_tileGetAndHoldAllOnDevices, Call_tileGetAndHoldAllOnDevices,
                            Call_tileGetAndHoldAllOnDevices]
                      else []);
              cte = stop_criterion K opts A;
              X_lo0 = copy_hi_lo K B;
              A_lo0 = copy_hi_lo K A;
              f_lo = getrf_lo K A_lo0;
              info = fst f_lo;
              A_lo = fst (snd f_lo);
              pivots1 = snd (snd f_lo);
              refined =
                (if info \<noteq> 0 then
                   Inr \<lparr>sX = X, sR = B, sX_lo = X_lo0, siter = - 3, sconverged = False,
                        scalls = [Call_getrf_lo]\<rparr>
                 else
                   (let s0 = initial_solve K A B A_lo pivots1 X_lo0;
                        s1 = (if converged_now K cte s0
                              then s0\<lparr>siter := 0, sconverged := True\<rparr> else s0)
                    in refine_loop K A B A_lo pivots1 cte itermax 0 s1))
          in case refined of
               Inl e \<Rightarrow> Inl e
             | Inr s \<Rightarrow>
                 if \<not> sconverged s \<and> info = 0 \<and> itermax = INT64_MIN then Inl SignedOverflow
                 else
                  (let iter1 = (if \<not> sconverged s \<and> info = 0
                                then int64_to_int (- itermax - 1) else siter s);
                       clear = (if target = Devices
                                then [Call_clearWorkspace, Call_clearWorkspace, Call_clearWorkspace]
                                else [])
                   in if \<not> sconverged s \<and> use_fallback then
                        (let f_hi = getrf_hi K A;
                             info_hi = fst f_hi;
                             A_hi = fst (snd f_hi);
                             pivots_hi = snd (snd f_hi)
                         in Inr \<lparr>rA = A_hi, rpivots = pivots_hi,
                                 rX = (if info_hi = 0 then getrs_hi K A_hi pivots_hi B else sX s),
                                 riter = iter1, rinfo = info_hi, rconverged = False,
                                 rcalls = scalls s @ [Call_getrf_hi]
                                            @ (if info_hi = 0 then [Call_getrs_hi] else []),
                                 rworkspace = hold @ clear\<rparr>)
                      else
                        Inr \<lparr>rA = A, rpivots = pivots1, rX = sX s, riter = iter1, rinfo = info,
                             rconverged = sconverged s, rcalls = scalls s,
                             rworkspace = hold @ clear\<rparr>)))"

text \<open>
  The iterates of the refinement, for stating what the controller reports: iterate
  \<open>0\<close> is the first solve, iterate \<open>i\<close> the state after \<open>i\<close> passes.
  \<open>conv_at i\<close> is the convergence test on iterate \<open>i\<close>.
\<close>

definition iterate_state ::
  "('h, 'l, 'p, 'n, 'c) gesv_kernels \<Rightarrow> 'h \<Rightarrow> 'h \<Rightarrow> nat \<Rightarrow> ('h, 'l) refine_state" where
  "iterate_state K A B i =
    (let f_lo = getrf_lo K (copy_hi_lo K A);
         A_lo = fst (snd f_lo);
         pivots1 = snd (snd f_lo)
     in (refine_pass K A B A_lo pivots1 ^^ i)
          (initial_solve K A B A_lo pivots1 (copy_hi_lo K B)))"

definition conv_at ::
  "('h, 'l, 'p, 'n, 'c) gesv_kernels \<Rightarrow> 'h \<Rightarrow> 'h \<Rightarrow> Options \<Rightarrow> nat \<Rightarrow> bool" where
  "conv_at K A B opts i = converged_now K (stop_criterion K opts A) (iterate_state K A B i)"

section \<open>The pipelined rank-k update \<^verbatim>\<open>herk\<close> (src/slate_herk.cc)\<close>

subsection \<open>The task graph\<close>

text \<open>
  \<^verbatim>\<open>internal::specialization::herk\<close> issues OpenMP tasks from one thread, in program
  order. A task is what it does and the array cells \<^verbatim>\<open>bcast[k]\<close> and \<^verbatim>\<open>gemm[k]\<close>
  named in its \<^verbatim>\<open>depend(in: ...)\<close> and \<^verbatim>\<open>depend(out: ...)\<close> clauses. A task either
  broadcasts block column \<open>k\<close> of \<open>A\<close>, or applies \<^verbatim>\<open>internal::herk\<close> with block
  column \<open>k\<close>; the first application scales \<open>C\<close> by \<open>beta\<close>, the later ones by
  \<^verbatim>\<open>real_t(1.0)\<close>.
\<close>

datatype token = Bcast_tok int | Gemm_tok int

datatype scale = Beta | One

datatype action = Bcast_col int | Herk_col int scale

record task =
  act :: action
  dep_in :: "token list"
  dep_out :: "token list"

text \<open>The five places that issue a task, in the order of the source.\<close>

definition bcast_first :: task where
  "bcast_first = \<lparr>act = Bcast_col 0, dep_in = [], dep_out = [Bcast_tok 0]\<rparr>"

definition bcast_ahead :: "nat \<Rightarrow> task" where
  "bcast_ahead k =
     \<lparr>act = Bcast_col (int k), dep_in = [Bcast_tok (int k - 1)], dep_out = [Bcast_tok (int k)]\<rparr>"

definition herk_first :: task where
  "herk_first = \<lparr>act = Herk_col 0 Beta, dep_in = [Bcast_tok 0], dep_out = [Gemm_tok 0]\<rparr>"

definition bcast_next :: "int \<Rightarrow> nat \<Rightarrow> task" where
  "bcast_next lookahead k =
     \<lparr>act = Bcast_col (int k + lookahead),
      dep_in = [Gemm_tok (int k - 1), Bcast_tok (int k + lookahead - 1)],
      dep_out = [Bcast_tok (int k + lookahead)]\<rparr>"

definition herk_next :: "nat \<Rightarrow> task" where
  "herk_next k =
     \<lparr>act = Herk_col (int k) One, dep_in = [Bcast_tok (int k), Gemm_tok (int k - 1)],
      dep_out = [Gemm_tok (int k)]\<rparr>"

text \<open>
  The loop \<^verbatim>\<open>for (k = 1; k < A.nt(); ++k)\<close> over the remaining block columns.
  \<^verbatim>\<open>k+lookahead\<close> is \<^verbatim>\<open>int64_t\<close> arithmetic.
\<close>

fun main_loop :: "nat \<Rightarrow> int \<Rightarrow> nat list \<Rightarrow> error + task list" where
  "main_loop nt lookahead [] = Inr []"
| "main_loop nt lookahead (k # ks) =
     (if INT64_MAX < int k + lookahead then Inl SignedOverflow
      else case main_loop nt lookahead ks of
             Inl e \<Rightarrow> Inl e
           | Inr ts \<Rightarrow>
               Inr ((if int k + lookahead < int nt then [bcast_next lookahead k] else [])
                    @ [herk_next k] @ ts))"

text \<open>
  All tasks of one call, in issue order. \<open>nt\<close> is \<open>A.nt()\<close>. The loop
  \<^verbatim>\<open>for (k = 1; k < lookahead+1 && k < A.nt(); ++k)\<close> evaluates \<^verbatim>\<open>lookahead+1\<close>
  at least once.
\<close>

definition herk_tasks :: "nat \<Rightarrow> int \<Rightarrow> error + task list" where
  "herk_tasks nt lookahead =
     (if INT64_MAX < lookahead + 1 then Inl SignedOverflow
      else case main_loop nt lookahead [1..<nt] of
             Inl e \<Rightarrow> Inl e
           | Inr ts \<Rightarrow>
               Inr (bcast_first
                    # map bcast_ahead (takeWhile (\<lambda>k. int k < lookahead + 1) [1..<nt])
                    @ [herk_first] @ ts))"

subsection \<open>Task dependences and schedules\<close>

text \<open>
  The dependences of OpenMP: a task depends on every task issued before it that names
  in a \<^verbatim>\<open>depend(out)\<close> clause a cell that it names itself, or that names in a
  \<^verbatim>\<open>depend(in)\<close> clause a cell of its own \<^verbatim>\<open>depend(out)\<close> clause. A task may start
  when the tasks it depends on have completed. A schedule is an order in which the
  runtime executes the issued tasks, each exactly once; the region ends when all have
  completed. Two tasks that may overlap in time are a broadcast and a step for
  different block columns, which touch different data, so an execution is represented
  by the order in which its tasks complete.
\<close>

definition conflict :: "task \<Rightarrow> task \<Rightarrow> bool" where
  "conflict a b =
     ((\<exists>t \<in> set (dep_out a). t \<in> set (dep_in b) \<union> set (dep_out b))
      \<or> (\<exists>t \<in> set (dep_in a). t \<in> set (dep_out b)))"

definition issued_before :: "task list \<Rightarrow> task \<Rightarrow> task list" where
  "issued_before ts t = takeWhile (\<lambda>x. x \<noteq> t) ts"

definition ready :: "task list \<Rightarrow> task list \<Rightarrow> task \<Rightarrow> bool" where
  "ready ts fin t = (\<forall>a \<in> set (issued_before ts t). conflict a t \<longrightarrow> a \<in> set fin)"

fun valid_from :: "task list \<Rightarrow> task list \<Rightarrow> task list \<Rightarrow> bool" where
  "valid_from ts fin [] = (set ts \<subseteq> set fin)"
| "valid_from ts fin (t # rest) =
     (t \<in> set ts \<and> t \<notin> set fin \<and> ready ts fin t \<and> valid_from ts (t # fin) rest)"

definition valid_schedule :: "task list \<Rightarrow> task list \<Rightarrow> bool" where
  "valid_schedule ts sched = valid_from ts [] sched"

subsection \<open>Tiles, residency and the kernel dispatch\<close>

text \<open>
  Modelled from the spec: a tile of the tile storage, which is not under src/. A tile
  has the copy of its owner on the host, the origin, which is authoritative when
  valid, and workspace copies on devices, by device number.
\<close>

record 't tile =
  origin :: 't
  origin_valid :: bool
  workspace :: "int \<Rightarrow> 't option"

text \<open>
  Modelled from the spec: \<^verbatim>\<open>tileMoveToHost\<close>, which is not under src/. Workspace
  copies must be reconciled back to the origin: moving a tile to the host from a
  device makes the origin valid from that device's copy (if the origin is not valid
  already) and removes the copy from the device.
\<close>

definition tileMoveToHost :: "int \<Rightarrow> 't tile \<Rightarrow> 't tile" where
  "tileMoveToHost device tle =
     (case workspace tle device of
        None \<Rightarrow> tle
      | Some w \<Rightarrow>
          if origin_valid tle then tle\<lparr>workspace := (workspace tle)(device := None)\<rparr>
          else tle\<lparr>origin := w, origin_valid := True,
                  workspace := (workspace tle)(device := None)\<rparr>)"

text \<open>
  Modelled from the spec: \<^verbatim>\<open>clearWorkspace\<close>, which is not under src/. It removes
  every workspace copy of every tile.
\<close>

definition clearWorkspace :: "(nat \<times> nat \<Rightarrow> 't tile) \<Rightarrow> (nat \<times> nat \<Rightarrow> 't tile)" where
  "clearWorkspace C = (\<lambda>ij. (C ij)\<lparr>workspace := (\<lambda>d. None)\<rparr>)"

text \<open>A tile is stable when its origin is valid and it has no workspace copy.\<close>

definition stable :: "'t tile \<Rightarrow> bool" where
  "stable tle = (origin_valid tle \<and> workspace tle = (\<lambda>d. None))"

text \<open>
  What the call knows of its matrices: the numbers of block rows and columns of \<open>A\<close>,
  the number of block rows (and columns) of the Hermitian \<open>C\<close>, which tiles of \<open>C\<close>
  this process owns and the device each tile is assigned to, and the arithmetic of the
  external kernel on one tile: \<open>tile_herk alpha k beta (i, j) t\<close> is
  \<open>alpha A(i,k) A(j,k)^H + beta t\<close>.
\<close>

record ('r, 't) herk_env =
  A_mt :: nat
  A_nt :: nat
  C_mt :: nat
  tileIsLocal :: "nat \<Rightarrow> nat \<Rightarrow> bool"
  tileDevice :: "nat \<Rightarrow> nat \<Rightarrow> int"
  tile_herk :: "'r \<Rightarrow> int \<Rightarrow> 'r \<Rightarrow> nat \<times> nat \<Rightarrow> 't \<Rightarrow> 't"

text \<open>
  Modelled from the spec: a host strategy of the dispatch \<^verbatim>\<open>internal::herk<target>\<close>,
  which is not under src/. The kernel is applied to the origin of the tile.
\<close>

definition apply_on_host :: "('t \<Rightarrow> 't) \<Rightarrow> 't tile \<Rightarrow> 't tile" where
  "apply_on_host f tle = tle\<lparr>origin := f (origin tle)\<rparr>"

text \<open>
  Modelled from the spec: the device strategy of the dispatch. The tile is made
  resident on its device (fetched from the origin if not already there), the kernel is
  applied to the device's copy, and the result stays on the device as workspace: the
  origin is no longer valid.
\<close>

definition apply_on_device :: "int \<Rightarrow> ('t \<Rightarrow> 't) \<Rightarrow> 't tile \<Rightarrow> 't tile" where
  "apply_on_device device f tle =
     (let w = (case workspace tle device of None \<Rightarrow> origin tle | Some w \<Rightarrow> w)
      in tle\<lparr>origin_valid := False, workspace := (workspace tle)(device := Some (f w))\<rparr>)"

text \<open>
  Modelled from the spec: the dispatch \<^verbatim>\<open>internal::herk<target>\<close>, which is not
  under src/. Every strategy applies the same kernel to every local tile of the lower
  triangle of \<open>C\<close>; the target \<^verbatim>\<open>Devices\<close> does so on the device of the tile, the three
  host targets on the host.
\<close>

definition internal_herk ::
  "('r, 't) herk_env \<Rightarrow> Target \<Rightarrow> 'r \<Rightarrow> int \<Rightarrow> 'r \<Rightarrow> (nat \<times> nat \<Rightarrow> 't tile) \<Rightarrow>
   (nat \<times> nat \<Rightarrow> 't tile)" where
  "internal_herk env target alpha k beta C =
     (\<lambda>(i, j).
        if j \<le> i \<and> i < C_mt env \<and> tileIsLocal env i j then
          (if target = Devices
           then apply_on_device (tileDevice env i j) (tile_herk env alpha k beta (i, j)) (C (i, j))
           else apply_on_host (tile_herk env alpha k beta (i, j)) (C (i, j)))
        else C (i, j))"

subsection \<open>Running the tasks\<close>

datatype herk_event =
    Ev_allocateBatchArrays
  | Ev_reserveDeviceWorkspace
  | Ev_task action
  | Ev_tileMoveToHost nat nat int
  | Ev_clearWorkspace

text \<open>The state of a call: the block columns of \<open>A\<close> received so far, the tiles
  of \<open>C\<close>, the log of what has been done, and the tasks that the call has issued.\<close>

record 't herk_state =
  received :: "int set"
  C_tiles :: "nat \<times> nat \<Rightarrow> 't tile"
  events :: "herk_event list"
  issued :: "task list"

text \<open>
  Modelled from the spec: a process may not read a tile it does not own without
  receiving it. The broadcast of block column \<open>k\<close> makes the column available to the
  process; an application of the kernel with a column that has not been received is an
  error.
\<close>

fun exec_action ::
  "('r::one, 't) herk_env \<Rightarrow> Target \<Rightarrow> 'r \<Rightarrow> 'r \<Rightarrow> action \<Rightarrow> 't herk_state \<Rightarrow>
   error + 't herk_state" where
  "exec_action env target alpha beta (Bcast_col k) s =
     Inr (s\<lparr>received := insert k (received s), events := events s @ [Ev_task (Bcast_col k)]\<rparr>)"
| "exec_action env target alpha beta (Herk_col k sc) s =
     (if k \<in> received s then
        Inr (s\<lparr>C_tiles := internal_herk env target alpha k
                             (case sc of Beta \<Rightarrow> beta | One \<Rightarrow> 1) (C_tiles s),
               events := events s @ [Ev_task (Herk_col k sc)]\<rparr>)
      else Inl TileNotReceived)"

fun run_tasks ::
  "('r::one, 't) herk_env \<Rightarrow> Target \<Rightarrow> 'r \<Rightarrow> 'r \<Rightarrow> task list \<Rightarrow> 't herk_state \<Rightarrow>
   error + 't herk_state" where
  "run_tasks env target alpha beta [] s = Inr s"
| "run_tasks env target alpha beta (t # ts) s =
     (case exec_action env target alpha beta (act t) s of
        Inl e \<Rightarrow> Inl e
      | Inr s' \<Rightarrow> run_tasks env target alpha beta ts s')"

text \<open>
  The loops after the parallel region:
  \<^verbatim>\<open>for j < C.nt(): for i in j .. C.mt()-1: if (C.tileIsLocal(i, j)) C.tileMoveToHost(i, j, C.tileDevice(i, j))\<close>.
  \<open>C\<close> is Hermitian, so \<open>C.nt()\<close> is \<open>C.mt()\<close>.
\<close>

definition flush_column ::
  "('r, 't) herk_env \<Rightarrow> nat \<Rightarrow> 't herk_state \<Rightarrow> 't herk_state" where
  "flush_column env j s =
     fold (\<lambda>i s. if tileIsLocal env i j
                  then s\<lparr>C_tiles := (C_tiles s)((i, j) := tileMoveToHost (tileDevice env i j) (C_tiles s (i, j))),
                         events := events s @ [Ev_tileMoveToHost i j (tileDevice env i j)]\<rparr>
                  else s)
          [j..<C_mt env] s"

definition flush_tiles :: "('r, 't) herk_env \<Rightarrow> 't herk_state \<Rightarrow> 't herk_state" where
  "flush_tiles env s = fold (flush_column env) [0..<C_mt env] s"

text \<open>
  The body of \<^verbatim>\<open>internal::specialization::herk\<close>. The matrix \<open>C\<close> is already the
  lower-triangular view (an upper one is conjugate-transposed first, which renames the
  tiles and nothing else). The tasks are issued for the given lookahead; \<open>sched\<close> is
  the order in which the runtime executes the issued tasks; the parallel region ends
  when all of them have completed.
\<close>

definition specialization_herk ::
  "('r::one, 't) herk_env \<Rightarrow> Target \<Rightarrow> 'r \<Rightarrow> 'r \<Rightarrow> int \<Rightarrow> task list \<Rightarrow>
   (nat \<times> nat \<Rightarrow> 't tile) \<Rightarrow> error + 't herk_state" where
  "specialization_herk env target alpha beta lookahead sched C =
     (if A_mt env \<noteq> C_mt env then Inl AssertionFailed
      else
        (let pre = (if target = Devices
                    then [Ev_allocateBatchArrays, Ev_reserveDeviceWorkspace] else [])
         in case herk_tasks (A_nt env) lookahead of
              Inl e \<Rightarrow> Inl e
            | Inr ts \<Rightarrow>
                (case run_tasks env target alpha beta sched
                        \<lparr>received = {}, C_tiles = C, events = pre, issued = ts\<rparr> of
                   Inl e \<Rightarrow> Inl e
                 | Inr s1 \<Rightarrow>
                     (let s2 = flush_tiles env s1
                      in Inr (s2\<lparr>C_tiles := clearWorkspace (C_tiles s2),
                                 events := events s2 @ [Ev_clearWorkspace]\<rparr>)))))"

text \<open>
  The public entry point \<^verbatim>\<open>slate::herk\<close>: \<^verbatim>\<open>opts.at(Option::Lookahead).i_\<close>, and 1
  when \<^verbatim>\<open>at\<close> throws \<^verbatim>\<open>std::out_of_range\<close>.
\<close>

definition herk_lookahead :: "Options \<Rightarrow> int" where
  "herk_lookahead opts = (case opts Lookahead of Some v \<Rightarrow> i_field v | None \<Rightarrow> 1)"

definition herk ::
  "('r::one, 't) herk_env \<Rightarrow> Target \<Rightarrow> 'r \<Rightarrow> 'r \<Rightarrow> (nat \<times> nat \<Rightarrow> 't tile) \<Rightarrow> Options \<Rightarrow>
   task list \<Rightarrow> error + 't herk_state" where
  "herk env target alpha beta C opts sched =
     specialization_herk env target alpha beta (herk_lookahead opts) sched C"

text \<open>The schedule that runs the tasks in the order of their issue.\<close>

definition issue_order :: "nat \<Rightarrow> int \<Rightarrow> task list" where
  "issue_order nt lookahead = (case herk_tasks nt lookahead of Inl e \<Rightarrow> [] | Inr ts \<Rightarrow> ts)"

subsection \<open>Notions for stating and proving the properties of the task graph\<close>

text \<open>The task that broadcasts block column \<open>j\<close> and the task that applies the kernel
  with block column \<open>k\<close>, for a lookahead \<open>l \<ge> 0\<close>.\<close>

definition bcast_task :: "nat \<Rightarrow> nat \<Rightarrow> task" where
  "bcast_task l j =
     (if j = 0 then bcast_first
      else if j \<le> l then bcast_ahead j
      else bcast_next (int l) (j - l))"

definition herk_task :: "nat \<Rightarrow> task" where
  "herk_task k = (if k = 0 then herk_first else herk_next k)"

text \<open>The issued tasks as one list, when no addition overflows.\<close>

definition task_list :: "nat \<Rightarrow> nat \<Rightarrow> task list" where
  "task_list nt l =
     bcast_first # map bcast_ahead [1..<min (Suc l) nt] @ [herk_first]
     @ concat (map (\<lambda>k. (if k + l < nt then [bcast_next (int l) k] else []) @ [herk_next k])
                   [1..<nt])"

text \<open>The position of a task in the order of issue, up to gaps.\<close>

definition issue_key :: "nat \<Rightarrow> task \<Rightarrow> nat" where
  "issue_key l t =
     (case act t of Bcast_col j \<Rightarrow> 2 * nat j | Herk_col k sc \<Rightarrow> 2 * (nat k + l) + 1)"


text \<open>The arithmetic of the lookahead stays within \<^verbatim>\<open>int64_t\<close>: \<^verbatim>\<open>lookahead+1\<close>,
  and \<^verbatim>\<open>k+lookahead\<close> for every \<open>k\<close> from 1 to \<open>nt - 1\<close>.\<close>

definition lookahead_in_range :: "nat \<Rightarrow> int \<Rightarrow> bool" where
  "lookahead_in_range nt lookahead =
     (0 \<le> lookahead \<and> lookahead + max 1 (int nt - 1) \<le> INT64_MAX)"

text \<open>The tiles that the update writes: the tiles of the lower triangle of \<open>C\<close> that
  this process owns.\<close>

definition local_lower :: "('r, 't) herk_env \<Rightarrow> nat \<Rightarrow> nat \<Rightarrow> bool" where
  "local_lower env i j = (j \<le> i \<and> i < C_mt env \<and> tileIsLocal env i j)"

text \<open>The scalar that multiplies \<open>C\<close> in the step for block column \<open>k\<close>.\<close>

definition panel_scale :: "'r::one \<Rightarrow> nat \<Rightarrow> 'r" where
  "panel_scale beta k = (if k = 0 then beta else 1)"


text \<open>The calls of \<^verbatim>\<open>tileMoveToHost\<close> that the loops after the parallel region make.\<close>

definition flush_events :: "('r, 't) herk_env \<Rightarrow> herk_event list" where
  "flush_events env =
     concat (map (\<lambda>j. map (\<lambda>i. Ev_tileMoveToHost i j (tileDevice env i j))
                          (filter (\<lambda>i. tileIsLocal env i j) [j..<C_mt env]))
                 [0..<C_mt env])"

text \<open>One panel step on one tile, on the host or on the device of the tile.\<close>

definition tile_step :: "Target \<Rightarrow> int \<Rightarrow> ('t \<Rightarrow> 't) \<Rightarrow> 't tile \<Rightarrow> 't tile" where
  "tile_step target d f = (if target = Devices then apply_on_device d f else apply_on_host f)"

text \<open>The tasks issued by the loop over the block columns \<open>a, ..., b - 1\<close>.\<close>

definition main_part :: "nat \<Rightarrow> nat \<Rightarrow> nat \<Rightarrow> nat \<Rightarrow> task list" where
  "main_part nt l a b =
     concat (map (\<lambda>k. (if k + l < nt then [bcast_next (int l) k] else []) @ [herk_next k])
                 [a..<b])"

text \<open>The tasks in \<open>fin\<close> have completed; the steps among them are those of the block
  columns before \<open>m\<close>.\<close>

definition herk_inv :: "nat \<Rightarrow> task list \<Rightarrow> nat \<Rightarrow> bool" where
  "herk_inv nt fin m = (m \<le> max 1 nt \<and> (\<forall>k<max 1 nt. (herk_task k \<in> set fin) = (k < m)))"

section \<open>Small instances for evaluating the models\<close>

text \<open>Kernels over the integers for the eigensolver.\<close>

definition demo_heev_kernels :: "(int, int, int) heev_kernels" where
  "demo_heev_kernels =
     \<lparr>he2hb = (\<lambda>a. a + 1), he2hbGather = (\<lambda>r a. if r = 0 then a else 0),
      hb2st = (\<lambda>b. 2 * b), copyhb2st = (\<lambda>b. ([b, b + 1], [b + 2])),
      sterf = (\<lambda>d e. map (\<lambda>x. x + 10) d)\<rparr>"

text \<open>
  A scalar system \<open>a x = b\<close> over the integers for the refinement controller. Low
  precision keeps multiples of 4 only, so that a matrix can be singular in low
  precision and regular in high precision; the low-precision solve returns half of the
  solution, so that each pass halves the residual; the iteration has converged when the
  residual is below the threshold (10 unless the option sets it). The high-precision
  factorization leaves ten times the matrix in its place, so that an overwritten
  matrix shows.
\<close>

definition demo_gesv_kernels :: "(int, int, nat, int, int) gesv_kernels" where
  "demo_gesv_kernels =
    \<lparr>mt_of = (\<lambda>_. 1),
     decode_target = (\<lambda>i. if i = 68 then Devices else HostTask),
     stop_criterion = (\<lambda>opts A. case opts Tolerance of None \<Rightarrow> 10 | Some v \<Rightarrow> i_field v),
     copy_hi_lo = (\<lambda>a. 4 * (a div 4)), copy_lo_hi = (\<lambda>a. a),
     getrf_lo = (\<lambda>a. (if a = 0 then 1 else 0, a, 0)),
     getrs_lo = (\<lambda>a p r. r div (2 * a)),
     getrf_hi = (\<lambda>a. (if a = 0 then 1 else 0, 10 * a, 1)),
     getrs_hi = (\<lambda>a p b. b div (a div 10)),
     gemm_hi = (\<lambda>A X R. R - A * X),
     add_hi = (\<lambda>R X. R + X),
     colNorms = abs,
     iterRefConverged = (\<lambda>r x c. r < c)\<rparr>"

text \<open>The same kernels with a convergence test that never succeeds.\<close>

definition stalled_gesv_kernels :: "(int, int, nat, int, int) gesv_kernels" where
  "stalled_gesv_kernels = demo_gesv_kernels\<lparr>iterRefConverged := (\<lambda>r x c. False)\<rparr>"

text \<open>
  A small instance for the rank-k update: \<open>A\<close> has 2 by 3 tiles, \<open>C\<close> 2 by 2, all
  tiles are local, tiles are integers, and every tile starts stable with content 1.
  \<open>demo_sched\<close> is an order of the six tasks for lookahead 1 that differs from the
  order of issue: each broadcast runs just before the step that needs it.
\<close>

definition demo_env :: "(int, int) herk_env" where
  "demo_env =
     \<lparr>A_mt = 2, A_nt = 3, C_mt = 2,
      tileIsLocal = (\<lambda>i j. True),
      tileDevice = (\<lambda>i j. int ((i + j) mod 2)),
      tile_herk = (\<lambda>alpha k beta ij t. alpha * (k + 1) * (int (fst ij) + 1) * (int (snd ij) + 1) + beta * t)\<rparr>"

definition demo_C :: "nat \<times> nat \<Rightarrow> int tile" where
  "demo_C = (\<lambda>ij. \<lparr>origin = 1, origin_valid = True, workspace = (\<lambda>d. None)\<rparr>)"

definition demo_sched :: "task list" where
  "demo_sched =
     [bcast_first, herk_first, bcast_ahead 1, herk_next 1, bcast_next 1 1, herk_next 2]"

section \<open>Properties of \<^verbatim>\<open>heev\<close>\<close>

subsection \<open>Facts about the vector helpers\<close>

lemma length_resize_vec: "length (resize_vec n W) = n"
  by (simp add: resize_vec_def)

lemma length_store_into: "length (store_into W vs) = length W"
  by (simp add: store_into_def)

subsection \<open>Claims about \<^verbatim>\<open>heev\<close>\<close>

text \<open>
  C8. The stages of \<^verbatim>\<open>heev\<close> run in a fixed order, in the log of the calls and in
  the flow of the data: the distributed band reduction \<^verbatim>\<open>he2hb\<close> of \<open>A\<close>, then
  the gather of the band matrix, and only then \<^verbatim>\<open>hb2st\<close> on the gathered band, the
  extraction of its diagonals and \<^verbatim>\<open>sterf\<close> on them. Every tile of the band matrix is
  local to the process of rank 0 and to no other process. The last three stages run on
  the process of rank 0 only: a process of any other rank reduces \<open>A\<close>, takes part in
  the gather and resizes \<open>W\<close>, and nothing else, so that its band matrix is not
  reduced and its \<open>W\<close> is the resized input. (On rank 0 with \<open>n = 0\<close> the
  construction of \<open>E\<close> throws after \<^verbatim>\<open>hb2st\<close>, still in this order.)
\<close>

theorem heev_stage_order:
  "(mpiRank \<noteq> 0 \<longrightarrow>
      htrace (heev K mpiRank n A W) = [Ev_he2hb, Ev_insertLocalTiles, Ev_he2hbGather, Ev_resize n]
      \<and> Ev_hb2st \<notin> set (htrace (heev K mpiRank n A W))
      \<and> Ev_copyhb2st \<notin> set (htrace (heev K mpiRank n A W))
      \<and> Ev_sterf \<notin> set (htrace (heev K mpiRank n A W))
      \<and> raised (heev K mpiRank n A W) = None
      \<and> hA (heev K mpiRank n A W) = he2hb K A
      \<and> hAband (heev K mpiRank n A W) = he2hbGather K mpiRank (he2hb K A)
      \<and> (\<forall>i j. \<not> hAband_local (heev K mpiRank n A W) i j)
      \<and> hW (heev K mpiRank n A W) = resize_vec n W)
   \<and> (mpiRank = 0 \<longrightarrow>
      hA (heev K mpiRank n A W) = he2hb K A
      \<and> (\<forall>i j. hAband_local (heev K mpiRank n A W) i j)
      \<and> hAband (heev K mpiRank n A W) = hb2st K (he2hbGather K 0 (he2hb K A)))
   \<and> (mpiRank = 0 \<and> 0 < n \<longrightarrow>
      htrace (heev K mpiRank n A W) =
        [Ev_he2hb, Ev_insertLocalTiles, Ev_he2hbGather, Ev_resize n,
         Ev_hb2st, Ev_copyhb2st, Ev_sterf]
      \<and> raised (heev K mpiRank n A W) = None
      \<and> hW (heev K mpiRank n A W) =
          (let DE = copyhb2st K (hAband (heev K mpiRank n A W));
               W2 = store_into (resize_vec n W) (fst DE);
               E2 = store_into (replicate (n - 1) 0) (snd DE)
           in store_into W2 (sterf K W2 E2)))
   \<and> (mpiRank = 0 \<and> n = 0 \<longrightarrow>
      htrace (heev K mpiRank n A W) =
        [Ev_he2hb, Ev_insertLocalTiles, Ev_he2hbGather, Ev_resize n, Ev_hb2st]
      \<and> raised (heev K mpiRank n A W) = Some LengthError
      \<and> hW (heev K mpiRank n A W) = resize_vec n W)"
  by (simp add: heev_def Let_def tileRank_def)

theorem heev_stage_order_witness:
  "htrace (heev demo_heev_kernels 3 2 5 [7, 8, 9]) =
     [Ev_he2hb, Ev_insertLocalTiles, Ev_he2hbGather, Ev_resize 2]
   \<and> hA (heev demo_heev_kernels 3 2 5 [7, 8, 9]) = 6
   \<and> hAband (heev demo_heev_kernels 3 2 5 [7, 8, 9]) = 0
   \<and> \<not> hAband_local (heev demo_heev_kernels 3 2 5 [7, 8, 9]) 1 0
   \<and> hW (heev demo_heev_kernels 3 2 5 [7, 8, 9]) = [7, 8]
   \<and> htrace (heev demo_heev_kernels 0 2 5 [7, 8, 9]) =
     [Ev_he2hb, Ev_insertLocalTiles, Ev_he2hbGather, Ev_resize 2,
      Ev_hb2st, Ev_copyhb2st, Ev_sterf]
   \<and> hA (heev demo_heev_kernels 0 2 5 [7, 8, 9]) = 6
   \<and> hAband (heev demo_heev_kernels 0 2 5 [7, 8, 9]) = 12
   \<and> hAband_local (heev demo_heev_kernels 0 2 5 [7, 8, 9]) 1 0
   \<and> hW (heev demo_heev_kernels 0 2 5 [7, 8, 9]) = [22, 23]
   \<and> raised (heev demo_heev_kernels 0 0 5 [7, 8, 9]) = Some LengthError"
proof -
  note r3 = heev_stage_order [of 3 demo_heev_kernels 2 5 "[7, 8, 9]"]
  note r0 = heev_stage_order [of 0 demo_heev_kernels 2 5 "[7, 8, 9]"]
  note e0 = heev_stage_order [of 0 demo_heev_kernels 0 5 "[7, 8, 9]"]
  have k: "he2hb demo_heev_kernels 5 = 6" "he2hbGather demo_heev_kernels 3 6 = 0"
    "he2hbGather demo_heev_kernels 0 6 = 6" "hb2st demo_heev_kernels 6 = 12"
    "copyhb2st demo_heev_kernels 12 = ([12, 13], [14])"
    by (simp_all add: demo_heev_kernels_def)
  have w: "resize_vec 2 [7, 8, 9 :: int] = [7, 8]" by (simp add: resize_vec_def)
  have s: "store_into [7, 8] [12, 13 :: int] = [12, 13]"
    "store_into [0] [14 :: int] = [14]"
    "sterf demo_heev_kernels [12, 13] [14] = [22, 23]"
    "store_into [12, 13] [22, 23 :: int] = [22, 23]"
    by (simp_all add: store_into_def demo_heev_kernels_def numeral_2_eq_2)
  have a: "htrace (heev demo_heev_kernels 3 2 5 [7, 8, 9]) =
     [Ev_he2hb, Ev_insertLocalTiles, Ev_he2hbGather, Ev_resize 2]
   \<and> hA (heev demo_heev_kernels 3 2 5 [7, 8, 9]) = 6
   \<and> hAband (heev demo_heev_kernels 3 2 5 [7, 8, 9]) = 0
   \<and> \<not> hAband_local (heev demo_heev_kernels 3 2 5 [7, 8, 9]) 1 0
   \<and> hW (heev demo_heev_kernels 3 2 5 [7, 8, 9]) = [7, 8]"
    using r3 by (simp add: k w)
  have b: "htrace (heev demo_heev_kernels 0 2 5 [7, 8, 9]) =
     [Ev_he2hb, Ev_insertLocalTiles, Ev_he2hbGather, Ev_resize 2,
      Ev_hb2st, Ev_copyhb2st, Ev_sterf]
   \<and> hA (heev demo_heev_kernels 0 2 5 [7, 8, 9]) = 6
   \<and> hAband (heev demo_heev_kernels 0 2 5 [7, 8, 9]) = 12
   \<and> hAband_local (heev demo_heev_kernels 0 2 5 [7, 8, 9]) 1 0
   \<and> hW (heev demo_heev_kernels 0 2 5 [7, 8, 9]) = [22, 23]"
    using r0 by (simp add: k w s Let_def)
  have c: "raised (heev demo_heev_kernels 0 0 5 [7, 8, 9]) = Some LengthError"
    using e0 by simp
  show ?thesis using a b c by simp
qed

text \<open>
  C9. When \<^verbatim>\<open>heev\<close> returns, \<open>W\<close> has length \<open>n\<close> on every process. On a
  process of rank other than 0 the result is the resized input vector and nothing
  else: it does not depend on the kernels or on the matrix, so no eigenvalue computed
  on rank 0 ever reaches it. On rank 0 (with \<open>0 < n\<close>) \<open>W\<close> holds what
  \<^verbatim>\<open>sterf\<close> wrote.
\<close>

theorem heev_W_not_broadcast:
  "(raised (heev K mpiRank n A W) = None \<longrightarrow> length (hW (heev K mpiRank n A W)) = n)
   \<and> (mpiRank \<noteq> 0 \<longrightarrow>
        raised (heev K mpiRank n A W) = None
        \<and> hW (heev K mpiRank n A W) = resize_vec n W)
   \<and> (mpiRank = 0 \<and> 0 < n \<longrightarrow>
        raised (heev K mpiRank n A W) = None
        \<and> hW (heev K mpiRank n A W) =
            (let Aband2 = hb2st K (he2hbGather K 0 (he2hb K A));
                 W2 = store_into (resize_vec n W) (fst (copyhb2st K Aband2));
                 E2 = store_into (replicate (n - 1) 0) (snd (copyhb2st K Aband2))
             in store_into W2 (sterf K W2 E2)))"
  by (simp add: heev_def Let_def length_resize_vec length_store_into)

theorem heev_W_not_broadcast_witness:
  "hW (heev demo_heev_kernels 3 2 5 [7, 8, 9]) = [7, 8]
   \<and> hW (heev demo_heev_kernels 1 4 5 [7, 8, 9]) = [7, 8, 9, 0]
   \<and> hW (heev demo_heev_kernels 0 2 5 [7, 8, 9]) = [22, 23]
   \<and> length (hW (heev demo_heev_kernels 0 2 5 [7, 8, 9])) = 2"
  using heev_W_not_broadcast [of demo_heev_kernels 3 2 5 "[7, 8, 9]"]
        heev_W_not_broadcast [of demo_heev_kernels 1 4 5 "[7, 8, 9]"]
        heev_W_not_broadcast [of demo_heev_kernels 0 2 5 "[7, 8, 9]"]
  by (simp add: demo_heev_kernels_def resize_vec_def store_into_def Let_def)

section \<open>Properties of \<^verbatim>\<open>gesv_mixed\<close>\<close>

subsection \<open>The refinement loop\<close>

declare refine_loop.simps [simp del]

lemma refine_pass_flags:
  "sconverged (refine_pass K A B A_lo pv s) = sconverged s"
  "siter (refine_pass K A B A_lo pv s) = siter s"
  "scalls (refine_pass K A B A_lo pv s) = scalls s @ [Call_getrs_lo, Call_add_hi, Call_gemm_hi]"
  by (simp_all add: refine_pass_def Let_def)

lemma refine_pass_ignores_flags:
  "refine_pass K A B A_lo pv (s\<lparr>siter := i, sconverged := c\<rparr>) =
     (refine_pass K A B A_lo pv s)\<lparr>siter := i, sconverged := c\<rparr>"
  by (simp add: refine_pass_def Let_def)

lemma refine_loop_done:
  "sconverged s \<Longrightarrow> refine_loop K A B A_lo pv cte itermax iiter s = Inr s"
  by (subst refine_loop.simps) simp

lemma refine_loop_first_conv:
  "\<not> sconverged s \<Longrightarrow> iiter + int d < itermax \<Longrightarrow> iiter + int d < INT_MAX \<Longrightarrow>
   (\<forall>e. 1 \<le> e \<and> e \<le> d \<longrightarrow> \<not> converged_now K cte ((refine_pass K A B A_lo pv ^^ e) s)) \<Longrightarrow>
   converged_now K cte ((refine_pass K A B A_lo pv ^^ Suc d) s) \<Longrightarrow>
   refine_loop K A B A_lo pv cte itermax iiter s =
     Inr (((refine_pass K A B A_lo pv ^^ Suc d) s)\<lparr>siter := iiter + int d + 1, sconverged := True\<rparr>)"
proof (induction d arbitrary: iiter s)
  case 0
  then show ?case
    by (subst refine_loop.simps) (simp add: Let_def refine_loop_done)
next
  case (Suc d)
  let ?s1 = "refine_pass K A B A_lo pv s"
  have nc: "\<not> converged_now K cte ?s1"
    using Suc.prems(4) [rule_format, of 1] by simp
  have step: "refine_loop K A B A_lo pv cte itermax iiter s =
              refine_loop K A B A_lo pv cte itermax (iiter + 1) ?s1"
    using Suc.prems(1,2,3) nc by (subst refine_loop.simps) (simp add: Let_def)
  have "refine_loop K A B A_lo pv cte itermax (iiter + 1) ?s1 =
     Inr (((refine_pass K A B A_lo pv ^^ Suc d) ?s1)\<lparr>siter := (iiter + 1) + int d + 1, sconverged := True\<rparr>)"
  proof (rule Suc.IH)
    show "\<not> sconverged ?s1" using Suc.prems(1) by (simp add: refine_pass_flags)
    show "iiter + 1 + int d < itermax" using Suc.prems(2) by simp
    show "iiter + 1 + int d < INT_MAX" using Suc.prems(3) by simp
    show "\<forall>e. 1 \<le> e \<and> e \<le> d \<longrightarrow> \<not> converged_now K cte ((refine_pass K A B A_lo pv ^^ e) ?s1)"
      using Suc.prems(4) [rule_format, of "Suc e" for e] by (simp add: funpow_swap1)
    show "converged_now K cte ((refine_pass K A B A_lo pv ^^ Suc d) ?s1)"
      using Suc.prems(5) by (simp add: funpow_swap1)
  qed
  then show ?case using step by (simp add: funpow_swap1 add.assoc)
qed

lemma refine_loop_exhaust:
  "\<not> sconverged s \<Longrightarrow> iiter + int d = itermax \<or> (d = 0 \<and> itermax \<le> iiter) \<Longrightarrow> itermax \<le> INT_MAX \<Longrightarrow>
   (\<forall>e. 1 \<le> e \<and> e \<le> d \<longrightarrow> \<not> converged_now K cte ((refine_pass K A B A_lo pv ^^ e) s)) \<Longrightarrow>
   refine_loop K A B A_lo pv cte itermax iiter s = Inr ((refine_pass K A B A_lo pv ^^ d) s)"
proof (induction d arbitrary: iiter s)
  case 0
  then show ?case
    by (subst refine_loop.simps) auto
next
  case (Suc d)
  let ?s1 = "refine_pass K A B A_lo pv s"
  have nc: "\<not> converged_now K cte ?s1"
    using Suc.prems(4) [rule_format, of 1] by simp
  have step: "refine_loop K A B A_lo pv cte itermax iiter s =
              refine_loop K A B A_lo pv cte itermax (iiter + 1) ?s1"
    using Suc.prems(1,2,3) nc by (subst refine_loop.simps) (auto simp add: Let_def)
  have "refine_loop K A B A_lo pv cte itermax (iiter + 1) ?s1 =
     Inr ((refine_pass K A B A_lo pv ^^ d) ?s1)"
  proof (rule Suc.IH)
    show "\<not> sconverged ?s1" using Suc.prems(1) by (simp add: refine_pass_flags)
    show "iiter + 1 + int d = itermax \<or> d = 0 \<and> itermax \<le> iiter + 1" using Suc.prems(2) by auto
    show "itermax \<le> INT_MAX" by fact
    show "\<forall>e. 1 \<le> e \<and> e \<le> d \<longrightarrow> \<not> converged_now K cte ((refine_pass K A B A_lo pv ^^ e) ?s1)"
      using Suc.prems(4) [rule_format, of "Suc e" for e] by (simp add: funpow_swap1)
  qed
  then show ?case using step by (simp add: funpow_swap1)
qed

lemma refine_loop_overflow:
  "\<not> sconverged s \<Longrightarrow> INT_MAX < itermax \<Longrightarrow> iiter + int d = INT_MAX \<Longrightarrow>
   (\<forall>e. 1 \<le> e \<and> e \<le> d \<longrightarrow> \<not> converged_now K cte ((refine_pass K A B A_lo pv ^^ e) s)) \<Longrightarrow>
   refine_loop K A B A_lo pv cte itermax iiter s = Inl SignedOverflow"
proof (induction d arbitrary: iiter s)
  case 0
  then show ?case
    by (subst refine_loop.simps) (simp add: Let_def)
next
  case (Suc d)
  let ?s1 = "refine_pass K A B A_lo pv s"
  have nc: "\<not> converged_now K cte ?s1"
    using Suc.prems(4) [rule_format, of 1] by simp
  have step: "refine_loop K A B A_lo pv cte itermax iiter s =
              refine_loop K A B A_lo pv cte itermax (iiter + 1) ?s1"
    using Suc.prems(1,2,3) nc by (subst refine_loop.simps) (auto simp add: Let_def)
  have "refine_loop K A B A_lo pv cte itermax (iiter + 1) ?s1 = Inl SignedOverflow"
  proof (rule Suc.IH)
    show "\<not> sconverged ?s1" using Suc.prems(1) by (simp add: refine_pass_flags)
    show "INT_MAX < itermax" by fact
    show "iiter + 1 + int d = INT_MAX" using Suc.prems(3) by simp
    show "\<forall>e. 1 \<le> e \<and> e \<le> d \<longrightarrow> \<not> converged_now K cte ((refine_pass K A B A_lo pv ^^ e) ?s1)"
      using Suc.prems(4) [rule_format, of "Suc e" for e] by (simp add: funpow_swap1)
  qed
  then show ?case using step by simp
qed

text \<open>What holds of every normal exit of the loop.\<close>

lemma refine_loop_result:
  "refine_loop K A B A_lo pv cte itermax iiter s = Inr s' \<Longrightarrow> 0 \<le> iiter \<Longrightarrow> iiter \<le> INT_MAX \<Longrightarrow>
   (sconverged s \<longrightarrow> s' = s) \<and>
   (\<not> sconverged s \<and> sconverged s' \<longrightarrow> iiter < siter s' \<and> siter s' \<le> INT_MAX \<and> siter s' \<le> itermax) \<and>
   (\<not> sconverged s' \<longrightarrow> siter s' = siter s \<and> itermax \<le> INT_MAX) \<and>
   set (scalls s') \<subseteq> set (scalls s) \<union> {Call_getrs_lo, Call_add_hi, Call_gemm_hi}"
proof (induction K A B A_lo pv cte itermax iiter s rule: refine_loop.induct)
  case (1 K A B A_lo pv cte itermax iiter s)
  show ?case
  proof (cases "iiter < itermax \<and> \<not> sconverged s")
    case False
    have "s' = s" using "1.prems"(1) False by (subst (asm) refine_loop.simps) auto
    then show ?thesis using False "1.prems" by auto
  next
    case True
    let ?s1 = "refine_pass K A B A_lo pv s"
    have lt: "iiter < INT_MAX"
      using "1.prems"(1) True by (subst (asm) refine_loop.simps) (auto simp: Let_def split: if_splits)
    show ?thesis
    proof (cases "converged_now K cte ?s1")
      case c: True
      have "refine_loop K A B A_lo pv cte itermax (iiter + 1) (?s1\<lparr>siter := iiter + 1, sconverged := True\<rparr>) = Inr s'"
        using "1.prems"(1) True lt c by (subst (asm) refine_loop.simps) (simp add: Let_def)
      then have "s' = ?s1\<lparr>siter := iiter + 1, sconverged := True\<rparr>"
        by (simp add: refine_loop_done)
      then show ?thesis using True lt by (auto simp: refine_pass_flags)
    next
      case nc: False
      have r: "refine_loop K A B A_lo pv cte itermax (iiter + 1) ?s1 = Inr s'"
        using "1.prems"(1) True lt nc by (subst (asm) refine_loop.simps) (simp add: Let_def)
      have "(sconverged ?s1 \<longrightarrow> s' = ?s1) \<and>
   (\<not> sconverged ?s1 \<and> sconverged s' \<longrightarrow> iiter + 1 < siter s' \<and> siter s' \<le> INT_MAX \<and> siter s' \<le> itermax) \<and>
   (\<not> sconverged s' \<longrightarrow> siter s' = siter ?s1 \<and> itermax \<le> INT_MAX) \<and>
   set (scalls s') \<subseteq> set (scalls ?s1) \<union> {Call_getrs_lo, Call_add_hi, Call_gemm_hi}"
        using "1.IH"(2) [OF True refl _ nc r] lt "1.prems"(2) by simp
      then show ?thesis using True by (auto simp: refine_pass_flags)
    qed
  qed
qed

lemma funpow_refine_pass_flags:
  "sconverged ((refine_pass K A B A_lo pv ^^ d) s) = sconverged s"
  "siter ((refine_pass K A B A_lo pv ^^ d) s) = siter s"
  by (induction d) (simp_all add: refine_pass_flags)

lemma initial_solve_flags:
  "sconverged (initial_solve K A B A_lo pv x) = False"
  "siter (initial_solve K A B A_lo pv x) = 0"
  "scalls (initial_solve K A B A_lo pv x) = [Call_getrf_lo, Call_getrs_lo, Call_gemm_hi]"
  by (simp_all add: initial_solve_def Let_def)

lemma int64_to_int_id:
  "- 2147483648 \<le> x \<Longrightarrow> x \<le> 2147483647 \<Longrightarrow> int64_to_int x = x"
  by (simp add: int64_to_int_def)

text \<open>Runs of the controller on the small instance.\<close>

lemma demo_conv_at:
  "\<not> conv_at demo_gesv_kernels 4 64 Map.empty 0"
  "\<not> conv_at demo_gesv_kernels 4 64 Map.empty 1"
  "conv_at demo_gesv_kernels 4 64 Map.empty 2"
  "conv_at demo_gesv_kernels 4 64 [Tolerance \<mapsto> Value 100] 0"
  "\<not> conv_at demo_gesv_kernels 4 64 [MaxIterations \<mapsto> Value 1] 0"
  "\<not> conv_at demo_gesv_kernels 4 64 [MaxIterations \<mapsto> Value 1] 1"
  by (simp_all add: conv_at_def iterate_state_def converged_now_def demo_gesv_kernels_def
        refine_pass_def initial_solve_def Let_def numeral_2_eq_2)

lemma demo_gesv_runs:
  "gesv_mixed demo_gesv_kernels 4 0 64 0 Map.empty =
     Inr \<lparr>rA = 4, rpivots = 0, rX = 14, riter = 2, rinfo = 0, rconverged = True,
          rcalls = [Call_getrf_lo, Call_getrs_lo, Call_gemm_hi, Call_getrs_lo, Call_add_hi,
                    Call_gemm_hi, Call_getrs_lo, Call_add_hi, Call_gemm_hi],
          rworkspace = []\<rparr>"
  "gesv_mixed demo_gesv_kernels 0 0 48 0 Map.empty =
     Inr \<lparr>rA = 0, rpivots = 1, rX = 0, riter = - 3, rinfo = 1, rconverged = False,
          rcalls = [Call_getrf_lo, Call_getrf_hi], rworkspace = []\<rparr>"
  "gesv_mixed demo_gesv_kernels 4 0 64 0 [MaxIterations \<mapsto> Value 1] =
     Inr \<lparr>rA = 40, rpivots = 1, rX = 16, riter = - 2, rinfo = 0, rconverged = False,
          rcalls = [Call_getrf_lo, Call_getrs_lo, Call_gemm_hi, Call_getrs_lo, Call_add_hi,
                    Call_gemm_hi, Call_getrf_hi, Call_getrs_hi],
          rworkspace = []\<rparr>"
  by (simp_all add: gesv_mixed_def Let_def get_option_def refine_loop.simps converged_now_def
        refine_pass_def initial_solve_def demo_gesv_kernels_def INT_MAX_def INT64_MIN_def
        int64_to_int_def)

subsection \<open>Claims about \<^verbatim>\<open>gesv_mixed\<close>\<close>

text \<open>
  C2 (as amended). Let the low-precision factorization succeed, and let
  \<open>itermax\<close> be the option \<^verbatim>\<open>MaxIterations\<close> (default 30).
  If the convergence test holds on the first solve, \<open>iter = 0\<close>.
  If it first holds after pass \<open>i\<close>, with \<open>1 \<le> i \<le> itermax\<close> and \<open>i \<le> INT_MAX\<close>,
  then \<open>iter = i\<close>.
  If \<open>itermax\<close> lies in the range of \<^verbatim>\<open>int\<close> and the test fails on the first solve and
  after each of the \<open>itermax\<close> passes, then \<open>iter = -(itermax+1)\<close>.
  In each case the controller returns normally.
\<close>

theorem gesv_mixed_iter:
  assumes mt: "mt_of K B = mt_of K A"
    and ok: "fst (getrf_lo K (copy_hi_lo K A)) = 0"
  shows "(conv_at K A B opts 0 \<longrightarrow>
            (\<exists>r. gesv_mixed K A pivots B X opts = Inr r \<and> riter r = 0 \<and> rconverged r))
     \<and> (\<forall>i. 1 \<le> i \<and> int i \<le> get_option opts MaxIterations 30 \<and> int i \<le> INT_MAX
             \<and> (\<forall>j<i. \<not> conv_at K A B opts j) \<and> conv_at K A B opts i \<longrightarrow>
            (\<exists>r. gesv_mixed K A pivots B X opts = Inr r \<and> riter r = int i \<and> rconverged r))
     \<and> (- INT_MAX - 1 \<le> get_option opts MaxIterations 30
          \<and> get_option opts MaxIterations 30 \<le> INT_MAX
          \<and> (\<forall>j. int j \<le> max 0 (get_option opts MaxIterations 30) \<longrightarrow> \<not> conv_at K A B opts j) \<longrightarrow>
            (\<exists>r. gesv_mixed K A pivots B X opts = Inr r
                 \<and> riter r = - (get_option opts MaxIterations 30 + 1) \<and> \<not> rconverged r))"
proof -
  let ?f = "getrf_lo K (copy_hi_lo K A)"
  let ?Alo = "fst (snd ?f)"
  let ?pv = "snd (snd ?f)"
  let ?cte = "stop_criterion K opts A"
  let ?s0 = "initial_solve K A B ?Alo ?pv (copy_hi_lo K B)"
  let ?P = "refine_pass K A B ?Alo ?pv"
  let ?itermax = "get_option opts MaxIterations 30"
  have cv: "conv_at K A B opts i = converged_now K ?cte ((?P ^^ i) ?s0)" for i
    by (simp add: conv_at_def iterate_state_def Let_def)
  have a: "\<exists>r. gesv_mixed K A pivots B X opts = Inr r \<and> riter r = 0 \<and> rconverged r"
    if "conv_at K A B opts 0"
  proof -
    have c0: "converged_now K ?cte ?s0" using that by (simp add: cv)
    show ?thesis
      using mt ok c0 by (simp add: gesv_mixed_def Let_def refine_loop_done)
  qed
  have b: "\<exists>r. gesv_mixed K A pivots B X opts = Inr r \<and> riter r = int i \<and> rconverged r"
    if h: "1 \<le> i" "int i \<le> ?itermax" "int i \<le> INT_MAX"
          "\<forall>j<i. \<not> conv_at K A B opts j" "conv_at K A B opts i" for i
  proof -
    obtain d where d: "i = Suc d" using h(1) by (cases i) auto
    have n0: "\<not> converged_now K ?cte ?s0" using h(4) [rule_format, of 0] d by (simp add: cv)
    have loop: "refine_loop K A B ?Alo ?pv ?cte ?itermax 0 ?s0 =
       Inr (((?P ^^ Suc d) ?s0)\<lparr>siter := 0 + int d + 1, sconverged := True\<rparr>)"
    proof (rule refine_loop_first_conv)
      show "\<not> sconverged ?s0" by (simp add: initial_solve_flags)
      show "0 + int d < ?itermax" using h(2) d by simp
      show "0 + int d < INT_MAX" using h(3) d by simp
      show "\<forall>e. 1 \<le> e \<and> e \<le> d \<longrightarrow> \<not> converged_now K ?cte ((?P ^^ e) ?s0)"
        using h(4) d by (auto simp: cv)
      show "converged_now K ?cte ((?P ^^ Suc d) ?s0)" using h(5) d by (simp add: cv)
    qed
    show ?thesis
      using mt ok n0 loop d by (simp add: gesv_mixed_def Let_def)
  qed
  have c: "\<exists>r. gesv_mixed K A pivots B X opts = Inr r
                 \<and> riter r = - (?itermax + 1) \<and> \<not> rconverged r"
    if h: "- INT_MAX - 1 \<le> ?itermax" "?itermax \<le> INT_MAX"
          "\<forall>j. int j \<le> max 0 ?itermax \<longrightarrow> \<not> conv_at K A B opts j"
  proof -
    define d where "d = nat ?itermax"
    have n0: "\<not> converged_now K ?cte ?s0" using h(3) [rule_format, of 0] by (simp add: cv)
    have loop: "refine_loop K A B ?Alo ?pv ?cte ?itermax 0 ?s0 = Inr ((?P ^^ d) ?s0)"
    proof (rule refine_loop_exhaust)
      show "\<not> sconverged ?s0" by (simp add: initial_solve_flags)
      show "0 + int d = ?itermax \<or> d = 0 \<and> ?itermax \<le> 0" by (auto simp: d_def)
      show "?itermax \<le> INT_MAX" by fact
      show "\<forall>e. 1 \<le> e \<and> e \<le> d \<longrightarrow> \<not> converged_now K ?cte ((?P ^^ e) ?s0)"
        using h(3) by (auto simp: cv d_def)
    qed
    have nar: "int64_to_int (- ?itermax - 1) = - ?itermax - 1"
      using h(1,2) by (intro int64_to_int_id) (simp_all add: INT_MAX_def)
    have nmin: "?itermax \<noteq> INT64_MIN" using h(1) by (simp add: INT_MAX_def INT64_MIN_def)
    show ?thesis
      using mt ok n0 loop nar nmin
      by (simp add: gesv_mixed_def Let_def funpow_refine_pass_flags initial_solve_flags)
  qed
  show ?thesis using a b c by blast
qed

theorem gesv_mixed_iter_witness:
  "(\<exists>r. gesv_mixed demo_gesv_kernels 4 0 64 0 [Tolerance \<mapsto> Value 100] = Inr r
        \<and> riter r = 0 \<and> rconverged r)
   \<and> (\<exists>r. gesv_mixed demo_gesv_kernels 4 0 64 0 Map.empty = Inr r
        \<and> riter r = 2 \<and> rconverged r)
   \<and> (\<exists>r. gesv_mixed demo_gesv_kernels 4 0 64 0 [MaxIterations \<mapsto> Value 1] = Inr r
        \<and> riter r = - 2 \<and> \<not> rconverged r)"
proof -
  have pre: "mt_of demo_gesv_kernels 64 = mt_of demo_gesv_kernels 4"
       "fst (getrf_lo demo_gesv_kernels (copy_hi_lo demo_gesv_kernels 4)) = 0"
    by (simp_all add: demo_gesv_kernels_def)
  have lt2: "\<forall>j<2. \<not> conv_at demo_gesv_kernels 4 64 Map.empty j"
    using demo_conv_at(1,2) by (auto simp: less_Suc_eq numeral_2_eq_2)
  have le1: "\<forall>j. int j \<le> max 0 (get_option [MaxIterations \<mapsto> Value 1] MaxIterations 30) \<longrightarrow>
               \<not> conv_at demo_gesv_kernels 4 64 [MaxIterations \<mapsto> Value 1] j"
  proof (intro allI impI)
    fix j :: nat
    assume "int j \<le> max 0 (get_option [MaxIterations \<mapsto> Value 1] MaxIterations 30)"
    then have "j = 0 \<or> j = 1" by (auto simp: get_option_def)
    then show "\<not> conv_at demo_gesv_kernels 4 64 [MaxIterations \<mapsto> Value 1] j"
      using demo_conv_at(5,6) by auto
  qed
  have a: "\<exists>r. gesv_mixed demo_gesv_kernels 4 0 64 0 [Tolerance \<mapsto> Value 100] = Inr r
        \<and> riter r = 0 \<and> rconverged r"
    using gesv_mixed_iter [OF pre, of "[Tolerance \<mapsto> Value 100]" 0 0] demo_conv_at(4) by blast
  have b: "\<exists>r. gesv_mixed demo_gesv_kernels 4 0 64 0 Map.empty = Inr r
        \<and> riter r = int 2 \<and> rconverged r"
    using gesv_mixed_iter [OF pre, of Map.empty 0 0, THEN conjunct2, THEN conjunct1,
                           rule_format, of 2]
          lt2 demo_conv_at(3) by (simp add: get_option_def INT_MAX_def)
  have c: "\<exists>r. gesv_mixed demo_gesv_kernels 4 0 64 0 [MaxIterations \<mapsto> Value 1] = Inr r
        \<and> riter r = - (get_option [MaxIterations \<mapsto> Value 1] MaxIterations 30 + 1)
        \<and> \<not> rconverged r"
    using gesv_mixed_iter [OF pre, of "[MaxIterations \<mapsto> Value 1]" 0 0, THEN conjunct2,
                           THEN conjunct2, rule_format]
          le1 by (simp add: get_option_def INT_MAX_def)
  show ?thesis using a b c by (simp add: get_option_def)
qed

text \<open>
  C2 as stated fails for \<open>itermax = 2^31\<close>: \<open>iter\<close> and the loop counter are 32-bit
  \<^verbatim>\<open>int\<close>s, so \<open>-(itermax+1)\<close> cannot be stored, and when no pass converges the
  counter overflows after pass \<open>2^31\<close>.
\<close>

theorem gesv_mixed_iter_counterexample:
  "gesv_mixed stalled_gesv_kernels 4 0 64 0 [MaxIterations \<mapsto> Value 2147483648]
     = Inl SignedOverflow"
proof -
  let ?K = "stalled_gesv_kernels"
  have nc: "converged_now ?K c s = False" for c s
    by (simp add: converged_now_def stalled_gesv_kernels_def demo_gesv_kernels_def)
  have "refine_loop ?K A B A_lo pv cte 2147483648 0 (initial_solve ?K A B A_lo pv x)
          = Inl SignedOverflow" for A B A_lo pv cte x
  proof (rule refine_loop_overflow [where d = "nat INT_MAX"])
    show "\<not> sconverged (initial_solve ?K A B A_lo pv x)" by (simp add: initial_solve_flags)
    show "INT_MAX < 2147483648" by (simp add: INT_MAX_def)
    show "0 + int (nat INT_MAX) = INT_MAX" by (simp add: INT_MAX_def)
    show "\<forall>e. 1 \<le> e \<and> e \<le> nat INT_MAX \<longrightarrow>
            \<not> converged_now ?K cte ((refine_pass ?K A B A_lo pv ^^ e) (initial_solve ?K A B A_lo pv x))"
      by (simp add: nc)
  qed
  then show ?thesis
    by (simp add: gesv_mixed_def Let_def get_option_def nc)
       (simp add: stalled_gesv_kernels_def demo_gesv_kernels_def)
qed

text \<open>
  C3. When the low-precision factorization \<^verbatim>\<open>getrf(A_lo)\<close> returns a nonzero
  \<open>info\<close> (on an input that passes the assertion on the block rows), the controller
  returns with \<open>iter = -3\<close>; it makes no low-precision solve and runs no refinement
  pass (no \<^verbatim>\<open>getrs\<close> in low precision, no \<^verbatim>\<open>add\<close>, no \<^verbatim>\<open>gemm\<close>). With the
  fallback enabled it goes on to the high-precision factorization of \<open>A\<close> and, when
  that succeeds, to the high-precision solve; the status is then the fallback's. With
  the fallback disabled nothing else runs and the low-precision \<open>info\<close> is returned.
\<close>

theorem gesv_mixed_singular_lo:
  assumes mt: "mt_of K B = mt_of K A"
    and sing: "fst (getrf_lo K (copy_hi_lo K A)) \<noteq> 0"
  shows "\<exists>r. gesv_mixed K A pivots B X opts = Inr r \<and> riter r = - 3
     \<and> Call_getrs_lo \<notin> set (rcalls r) \<and> Call_add_hi \<notin> set (rcalls r)
     \<and> Call_gemm_hi \<notin> set (rcalls r)
     \<and> (get_option opts UseFallbackSolver 1 \<noteq> 0 \<longrightarrow>
          rcalls r = [Call_getrf_lo, Call_getrf_hi]
                       @ (if fst (getrf_hi K A) = 0 then [Call_getrs_hi] else [])
          \<and> rinfo r = fst (getrf_hi K A)
          \<and> rA r = fst (snd (getrf_hi K A)) \<and> rpivots r = snd (snd (getrf_hi K A))
          \<and> rX r = (if fst (getrf_hi K A) = 0
                     then getrs_hi K (fst (snd (getrf_hi K A))) (snd (snd (getrf_hi K A))) B
                     else X))
     \<and> (get_option opts UseFallbackSolver 1 = 0 \<longrightarrow>
          rcalls r = [Call_getrf_lo] \<and> rinfo r = fst (getrf_lo K (copy_hi_lo K A))
          \<and> rA r = A \<and> rX r = X)"
  using mt sing by (simp add: gesv_mixed_def Let_def)

theorem gesv_mixed_singular_lo_witness:
  "\<exists>r. gesv_mixed demo_gesv_kernels 3 0 48 0 Map.empty = Inr r \<and> riter r = - 3
      \<and> rcalls r = [Call_getrf_lo, Call_getrf_hi, Call_getrs_hi] \<and> rinfo r = 0 \<and> rX r = 16"
proof -
  have pre: "mt_of demo_gesv_kernels 48 = mt_of demo_gesv_kernels 3"
       "fst (getrf_lo demo_gesv_kernels (copy_hi_lo demo_gesv_kernels 3)) \<noteq> 0"
    by (simp_all add: demo_gesv_kernels_def)
  show ?thesis
    using gesv_mixed_singular_lo [OF pre, of 0 0 Map.empty]
    by (auto simp: get_option_def demo_gesv_kernels_def)
qed

text \<open>
  C4 (as amended). On every normal return with a positive status: the refinement has
  not converged and no high-precision solve has been made. With the fallback enabled
  the status is the \<open>info\<close> of the high-precision factorization. With the fallback
  disabled it is the \<open>info\<close> of the low-precision factorization, \<open>iter\<close> is
  \<open>-3\<close>, and \<open>A\<close> and \<open>X\<close> are untouched.
\<close>

theorem gesv_mixed_positive_status:
  assumes res: "gesv_mixed K A pivots B X opts = Inr r"
    and pos: "0 < rinfo r"
  shows "\<not> rconverged r \<and> Call_getrs_hi \<notin> set (rcalls r)
     \<and> (get_option opts UseFallbackSolver 1 \<noteq> 0 \<longrightarrow>
          rinfo r = fst (getrf_hi K A) \<and> Call_getrf_hi \<in> set (rcalls r))
     \<and> (get_option opts UseFallbackSolver 1 = 0 \<longrightarrow>
          rinfo r = fst (getrf_lo K (copy_hi_lo K A)) \<and> riter r = - 3
          \<and> rcalls r = [Call_getrf_lo] \<and> rX r = X \<and> rA r = A)"
proof -
  let ?f = "getrf_lo K (copy_hi_lo K A)"
  let ?Alo = "fst (snd ?f)"
  let ?pv = "snd (snd ?f)"
  let ?cte = "stop_criterion K opts A"
  let ?s0 = "initial_solve K A B ?Alo ?pv (copy_hi_lo K B)"
  let ?itermax = "get_option opts MaxIterations 30"
  have mt: "mt_of K B = mt_of K A"
    using res by (simp add: gesv_mixed_def Let_def split: if_splits)
  show ?thesis
  proof (cases "fst ?f = 0")
    case False
    then show ?thesis
      using res mt pos by (auto simp: gesv_mixed_def Let_def split: if_splits)
  next
    case ok: True
    let ?s1 = "if converged_now K ?cte ?s0 then ?s0\<lparr>siter := 0, sconverged := True\<rparr> else ?s0"
    obtain s where loop: "refine_loop K A B ?Alo ?pv ?cte ?itermax 0 ?s1 = Inr s"
      using res mt ok by (auto simp: gesv_mixed_def Let_def split: sum.splits if_splits)
    have facts: "(sconverged ?s1 \<longrightarrow> s = ?s1) \<and>
       (\<not> sconverged ?s1 \<and> sconverged s \<longrightarrow> 0 < siter s \<and> siter s \<le> INT_MAX \<and> siter s \<le> ?itermax) \<and>
       (\<not> sconverged s \<longrightarrow> siter s = siter ?s1 \<and> ?itermax \<le> INT_MAX) \<and>
       set (scalls s) \<subseteq> set (scalls ?s1) \<union> {Call_getrs_lo, Call_add_hi, Call_gemm_hi}"
      by (rule refine_loop_result [OF loop]) (simp_all add: INT_MAX_def)
    have calls: "Call_getrf_hi \<notin> set (scalls s)" "Call_getrs_hi \<notin> set (scalls s)"
      using facts by (auto simp: initial_solve_flags split: if_splits)
    show ?thesis
      using res mt ok loop calls pos
      by (auto simp: gesv_mixed_def Let_def split: if_splits)
  qed
qed

theorem gesv_mixed_positive_status_witness:
  "gesv_mixed demo_gesv_kernels 0 0 48 0 Map.empty =
     Inr \<lparr>rA = 0, rpivots = 1, rX = 0, riter = - 3, rinfo = 1, rconverged = False,
          rcalls = [Call_getrf_lo, Call_getrf_hi], rworkspace = []\<rparr>
   \<and> fst (getrf_hi demo_gesv_kernels 0) = 1"
proof -
  have pos: "0 < rinfo \<lparr>rA = 0::int, rpivots = 1::nat, rX = 0::int, riter = - 3, rinfo = 1,
          rconverged = False, rcalls = [Call_getrf_lo, Call_getrf_hi], rworkspace = []\<rparr>"
    by simp
  show ?thesis
    using gesv_mixed_positive_status [OF demo_gesv_runs(2) pos] demo_gesv_runs(2)
    by (simp add: get_option_def)
qed

text \<open>
  C4 as stated fails with the fallback disabled: the matrix 3 is singular in low
  precision only, the status 1 is the low-precision \<open>info\<close>, and the high-precision
  factorization, which would return 0, is never called.
\<close>

theorem gesv_mixed_positive_status_counterexample:
  "gesv_mixed demo_gesv_kernels 3 0 48 0 [UseFallbackSolver \<mapsto> Value 0] =
     Inr \<lparr>rA = 3, rpivots = 0, rX = 0, riter = - 3, rinfo = 1, rconverged = False,
          rcalls = [Call_getrf_lo], rworkspace = []\<rparr>
   \<and> fst (getrf_hi demo_gesv_kernels 3) = 0"
  by (simp add: gesv_mixed_def Let_def get_option_def demo_gesv_kernels_def)

text \<open>
  C10 (as amended). On every normal return: if the refinement has converged, the
  status is 0, \<open>iter \<ge> 0\<close>, \<open>A\<close> is the input matrix, and neither the
  high-precision factorization nor the high-precision solve has been called. The
  high-precision factorization is called exactly when the refinement has not converged
  and the fallback is enabled; only then are \<open>A\<close> and the pivots those of the
  high-precision factorization, otherwise \<open>A\<close> is unchanged and the pivots are the
  low-precision ones. When \<^verbatim>\<open>MaxIterations\<close> is not negative, convergence is what the
  caller reads from status 0 and \<open>iter \<ge> 0\<close>, so that then a return with status 0
  and \<open>iter \<ge> 0\<close> leaves \<open>A\<close> unchanged and has made no high-precision call.
\<close>

theorem gesv_mixed_frame:
  assumes res: "gesv_mixed K A pivots B X opts = Inr r"
  shows "(rconverged r \<longrightarrow>
            rinfo r = 0 \<and> 0 \<le> riter r \<and> rA r = A
            \<and> Call_getrf_hi \<notin> set (rcalls r) \<and> Call_getrs_hi \<notin> set (rcalls r))
     \<and> ((Call_getrf_hi \<in> set (rcalls r)) =
          (\<not> rconverged r \<and> get_option opts UseFallbackSolver 1 \<noteq> 0))
     \<and> (Call_getrf_hi \<in> set (rcalls r) \<longrightarrow>
          rA r = fst (snd (getrf_hi K A)) \<and> rpivots r = snd (snd (getrf_hi K A)))
     \<and> (Call_getrf_hi \<notin> set (rcalls r) \<longrightarrow>
          rA r = A \<and> rpivots r = snd (snd (getrf_lo K (copy_hi_lo K A))))
     \<and> (0 \<le> get_option opts MaxIterations 30 \<longrightarrow>
          rconverged r = (rinfo r = 0 \<and> 0 \<le> riter r))
     \<and> (0 \<le> get_option opts MaxIterations 30 \<and> rinfo r = 0 \<and> 0 \<le> riter r \<longrightarrow>
          rA r = A \<and> Call_getrf_hi \<notin> set (rcalls r) \<and> Call_getrs_hi \<notin> set (rcalls r))"
proof -
  let ?f = "getrf_lo K (copy_hi_lo K A)"
  let ?Alo = "fst (snd ?f)"
  let ?pv = "snd (snd ?f)"
  let ?cte = "stop_criterion K opts A"
  let ?s0 = "initial_solve K A B ?Alo ?pv (copy_hi_lo K B)"
  let ?itermax = "get_option opts MaxIterations 30"
  have mt: "mt_of K B = mt_of K A"
    using res by (simp add: gesv_mixed_def Let_def split: if_splits)
  show ?thesis
  proof (cases "fst ?f = 0")
    case False
    then show ?thesis
      using res mt by (auto simp: gesv_mixed_def Let_def split: if_splits)
  next
    case ok: True
    let ?s1 = "if converged_now K ?cte ?s0 then ?s0\<lparr>siter := 0, sconverged := True\<rparr> else ?s0"
    obtain s where loop: "refine_loop K A B ?Alo ?pv ?cte ?itermax 0 ?s1 = Inr s"
      using res mt ok by (auto simp: gesv_mixed_def Let_def split: sum.splits if_splits)
    have facts: "(sconverged ?s1 \<longrightarrow> s = ?s1) \<and>
       (\<not> sconverged ?s1 \<and> sconverged s \<longrightarrow> 0 < siter s \<and> siter s \<le> INT_MAX \<and> siter s \<le> ?itermax) \<and>
       (\<not> sconverged s \<longrightarrow> siter s = siter ?s1 \<and> ?itermax \<le> INT_MAX) \<and>
       set (scalls s) \<subseteq> set (scalls ?s1) \<union> {Call_getrs_lo, Call_add_hi, Call_gemm_hi}"
      by (rule refine_loop_result [OF loop]) (simp_all add: INT_MAX_def)
    have calls: "Call_getrf_hi \<notin> set (scalls s)" "Call_getrs_hi \<notin> set (scalls s)"
      using facts by (auto simp: initial_solve_flags split: if_splits)
    have it: "sconverged s \<Longrightarrow> 0 \<le> siter s"
      using facts by (auto simp: initial_solve_flags split: if_splits)
    have neg: "int64_to_int (- ?itermax - 1) < 0" if "\<not> sconverged s" "0 \<le> ?itermax"
    proof -
      have "?itermax \<le> INT_MAX" using facts that by simp
      then have "int64_to_int (- ?itermax - 1) = - ?itermax - 1"
        using that(2) by (intro int64_to_int_id) (simp_all add: INT_MAX_def)
      then show ?thesis using that(2) by simp
    qed
    show ?thesis
      using res mt ok loop calls it neg
      by (auto simp: gesv_mixed_def Let_def split: if_splits)
  qed
qed

theorem gesv_mixed_frame_witness:
  "gesv_mixed demo_gesv_kernels 4 0 64 0 Map.empty =
     Inr \<lparr>rA = 4, rpivots = 0, rX = 14, riter = 2, rinfo = 0, rconverged = True,
          rcalls = [Call_getrf_lo, Call_getrs_lo, Call_gemm_hi, Call_getrs_lo, Call_add_hi,
                    Call_gemm_hi, Call_getrs_lo, Call_add_hi, Call_gemm_hi],
          rworkspace = []\<rparr>
   \<and> gesv_mixed demo_gesv_kernels 4 0 64 0 [MaxIterations \<mapsto> Value 1] =
     Inr \<lparr>rA = 40, rpivots = 1, rX = 16, riter = - 2, rinfo = 0, rconverged = False,
          rcalls = [Call_getrf_lo, Call_getrs_lo, Call_gemm_hi, Call_getrs_lo, Call_add_hi,
                    Call_gemm_hi, Call_getrf_hi, Call_getrs_hi],
          rworkspace = []\<rparr>"
  using gesv_mixed_frame [OF demo_gesv_runs(1)] gesv_mixed_frame [OF demo_gesv_runs(3)]
        demo_gesv_runs(1,3)
  by simp

text \<open>
  C10 as stated fails for \<^verbatim>\<open>MaxIterations = -5\<close>: no pass runs, the first test has
  not converged, \<open>iter\<close> is set to \<open>-itermax - 1 = 4\<close>, the fallback factors \<open>A\<close>
  in place and solves, and the call returns 0. The caller reads status 0 and
  \<open>iter \<ge> 0\<close>, while both high-precision routines have run and \<open>A\<close> is overwritten.
\<close>

theorem gesv_mixed_frame_counterexample:
  "gesv_mixed demo_gesv_kernels 4 0 64 0 [MaxIterations \<mapsto> Value (- 5)] =
     Inr \<lparr>rA = 40, rpivots = 1, rX = 16, riter = 4, rinfo = 0, rconverged = False,
          rcalls = [Call_getrf_lo, Call_getrs_lo, Call_gemm_hi, Call_getrf_hi, Call_getrs_hi],
          rworkspace = []\<rparr>"
  by (simp add: gesv_mixed_def Let_def get_option_def refine_loop.simps converged_now_def
        initial_solve_def demo_gesv_kernels_def INT64_MIN_def int64_to_int_def)

section \<open>Properties of \<^verbatim>\<open>herk\<close>\<close>

subsection \<open>The issued tasks\<close>

lemma takeWhile_less_upt:
  "takeWhile (\<lambda>k. k < m) [a..<b] = [a..<min m b]"
proof (cases "b \<le> m")
  case True
  then have "\<forall>x\<in>set [a..<b]. x < m" by auto
  then have "takeWhile (\<lambda>k. k < m) [a..<b] = [a..<b]" by (simp add: takeWhile_eq_all_conv)
  then show ?thesis using True by (simp add: min_def)
next
  case False
  then have mb: "m < b" by simp
  show ?thesis
  proof (cases "a < m")
    case False
    then show ?thesis using mb by (cases "a < b") (simp_all add: upt_conv_Cons min_def)
  next
    case True
    have sp: "[a..<b] = [a..<m] @ m # [Suc m..<b]"
      using True mb upt_add_eq_append [of a m "b - m"] by (simp add: upt_conv_Cons)
    have "takeWhile (\<lambda>k. k < m) ([a..<m] @ m # [Suc m..<b]) =
            [a..<m] @ takeWhile (\<lambda>k. k < m) (m # [Suc m..<b])"
      by (rule takeWhile_append2) simp
    then show ?thesis using sp mb by (simp add: min_def)
  qed
qed

lemma prologue_eq:
  "takeWhile (\<lambda>k. int k < int l + 1) [1..<nt] = [1..<min (Suc l) nt]"
proof -
  have "(\<lambda>k. int k < int l + 1) = (\<lambda>k. k < Suc l)" by auto
  then show ?thesis by (simp add: takeWhile_less_upt)
qed

lemma main_loop_eq:
  "\<forall>k\<in>set ks. int k + int l \<le> INT64_MAX \<Longrightarrow>
   main_loop nt (int l) ks =
     Inr (concat (map (\<lambda>k. (if k + l < nt then [bcast_next (int l) k] else []) @ [herk_next k]) ks))"
  by (induction ks) auto

lemma herk_tasks_eq:
  assumes "lookahead_in_range nt (int l)"
  shows "herk_tasks nt (int l) = Inr (task_list nt l)"
proof -
  have a: "\<not> INT64_MAX < int l + 1" using assms by (auto simp: lookahead_in_range_def)
  have "\<forall>k\<in>set [1..<nt]. int k + int l \<le> INT64_MAX"
    using assms by (auto simp: lookahead_in_range_def)
  then have "main_loop nt (int l) [1..<nt] =
     Inr (concat (map (\<lambda>k. (if k + l < nt then [bcast_next (int l) k] else []) @ [herk_next k])
                      [1..<nt]))"
    by (rule main_loop_eq)
  then show ?thesis
    unfolding herk_tasks_def prologue_eq task_list_def using a by simp
qed

lemma issue_key_simps:
  "issue_key l bcast_first = 0"
  "issue_key l (bcast_ahead k) = 2 * k"
  "issue_key l herk_first = 2 * l + 1"
  "issue_key l (bcast_next (int l) k) = 2 * (k + l)"
  "issue_key l (herk_next k) = 2 * (k + l) + 1"
  by (simp_all add: issue_key_def bcast_first_def bcast_ahead_def herk_first_def
        bcast_next_def herk_next_def nat_add_distrib)

lemma main_part_Suc:
  "a \<le> b \<Longrightarrow> main_part nt l a (Suc b) =
     main_part nt l a b @ (if b + l < nt then [bcast_next (int l) b] else []) @ [herk_next b]"
  by (simp add: main_part_def)

lemma main_part_empty: "main_part nt l a a = []"
  by (simp add: main_part_def)

lemma set_main_part:
  "t \<in> set (main_part nt l a b) \<longleftrightarrow>
     (\<exists>k. a \<le> k \<and> k < b \<and> (t = herk_next k \<or> (k + l < nt \<and> t = bcast_next (int l) k)))"
  by (auto simp: main_part_def split: if_splits)

lemma main_part_keys:
  "t \<in> set (main_part nt l a b) \<Longrightarrow> 2 * (a + l) \<le> issue_key l t \<and> issue_key l t < 2 * (b + l)"
  by (auto simp: set_main_part issue_key_simps)

lemma sorted_main_part:
  "a \<le> b \<Longrightarrow> sorted_wrt (\<lambda>x y. issue_key l x < issue_key l y) (main_part nt l a b)"
proof (induction b)
  case 0
  then show ?case by (simp add: main_part_def)
next
  case (Suc b)
  show ?case
  proof (cases "a \<le> b")
    case False
    then have "a = Suc b" using Suc.prems by simp
    then show ?thesis by (simp add: main_part_empty)
  next
    case True
    have k: "\<forall>x\<in>set (main_part nt l a b). issue_key l x < 2 * (b + l)"
      using main_part_keys by blast
    show ?thesis
      using Suc.IH [OF True] k
      by (auto simp: main_part_Suc [OF True] sorted_wrt_append issue_key_simps)
  qed
qed

lemma task_list_main_part:
  "task_list nt l =
     bcast_first # map bcast_ahead [1..<min (Suc l) nt] @ [herk_first] @ main_part nt l 1 nt"
  by (simp add: task_list_def main_part_def)

lemma sorted_task_list:
  "sorted_wrt (\<lambda>x y. issue_key l x < issue_key l y) (task_list nt l)"
proof -
  have m: "sorted_wrt (\<lambda>x y. issue_key l x < issue_key l y) (main_part nt l 1 nt)"
  proof (cases "1 \<le> nt")
    case True
    then show ?thesis by (rule sorted_main_part)
  next
    case False
    then show ?thesis by (simp add: main_part_def)
  qed
  have mk: "\<forall>x\<in>set (main_part nt l 1 nt). 2 * (1 + l) \<le> issue_key l x"
    using main_part_keys by blast
  have p: "sorted_wrt (\<lambda>x y. issue_key l x < issue_key l y) (map bcast_ahead [1..<min (Suc l) nt])"
    by (simp add: sorted_wrt_map issue_key_simps sorted_wrt_upt)
  show ?thesis
    unfolding task_list_main_part
    using m mk p
    by (auto simp: sorted_wrt_append issue_key_simps)
qed

lemma set_task_list:
  "t \<in> set (task_list nt l) \<longleftrightarrow>
     (\<exists>j<max 1 nt. t = bcast_task l j) \<or> (\<exists>k<max 1 nt. t = herk_task k)"
proof
  assume "t \<in> set (task_list nt l)"
  then consider "t = bcast_first" | k where "1 \<le> k" "k \<le> l" "k < nt" "t = bcast_ahead k"
    | "t = herk_first" | k where "1 \<le> k" "k < nt" "t = herk_next k"
    | k where "1 \<le> k" "k + l < nt" "t = bcast_next (int l) k"
    unfolding task_list_main_part by (auto simp: set_main_part)
  then show "(\<exists>j<max 1 nt. t = bcast_task l j) \<or> (\<exists>k<max 1 nt. t = herk_task k)"
  proof cases
    case 1
    then have "t = bcast_task l 0" "0 < max 1 nt" by (simp_all add: bcast_task_def)
    then show ?thesis by blast
  next
    case (2 k)
    then have "t = bcast_task l k" "k < max 1 nt" by (simp_all add: bcast_task_def)
    then show ?thesis by blast
  next
    case 3
    then have "t = herk_task 0" "0 < max 1 nt" by (simp_all add: herk_task_def)
    then show ?thesis by blast
  next
    case (4 k)
    then have "t = herk_task k" "k < max 1 nt" by (simp_all add: herk_task_def)
    then show ?thesis by blast
  next
    case (5 k)
    then have "t = bcast_task l (k + l)" "k + l < max 1 nt" by (simp_all add: bcast_task_def)
    then show ?thesis by blast
  qed
next
  assume "(\<exists>j<max 1 nt. t = bcast_task l j) \<or> (\<exists>k<max 1 nt. t = herk_task k)"
  then show "t \<in> set (task_list nt l)"
  proof
    assume "\<exists>j<max 1 nt. t = bcast_task l j"
    then obtain j where j: "j < max 1 nt" "t = bcast_task l j" by auto
    show ?thesis
    proof (cases "j = 0")
      case True
      then show ?thesis using j by (simp add: bcast_task_def task_list_main_part)
    next
      case False
      then have jn: "j < nt" using j by (simp add: max_def split: if_splits)
      show ?thesis
      proof (cases "j \<le> l")
        case True
        then have "t = bcast_ahead j" "j \<in> set [1..<min (Suc l) nt]"
          using False j jn by (auto simp: bcast_task_def)
        then show ?thesis unfolding task_list_main_part by auto
      next
        case nle: False
        then have "t = bcast_next (int l) (j - l)" "1 \<le> j - l" "j - l < nt" "(j - l) + l < nt"
          using False j jn by (auto simp: bcast_task_def)
        then have "t \<in> set (main_part nt l 1 nt)" unfolding set_main_part by blast
        then show ?thesis unfolding task_list_main_part by auto
      qed
    qed
  next
    assume "\<exists>k<max 1 nt. t = herk_task k"
    then obtain k where k: "k < max 1 nt" "t = herk_task k" by auto
    show ?thesis
    proof (cases "k = 0")
      case True
      then show ?thesis using k by (simp add: herk_task_def task_list_main_part)
    next
      case False
      then have "t = herk_next k" "1 \<le> k" "k < nt"
        using k by (auto simp: herk_task_def max_def split: if_splits)
      then have "t \<in> set (main_part nt l 1 nt)" unfolding set_main_part by blast
      then show ?thesis unfolding task_list_main_part by auto
    qed
  qed
qed

lemma issue_key_tasks:
  "issue_key l (bcast_task l j) = 2 * j"
  "issue_key l (herk_task k) = 2 * (k + l) + 1"
  by (auto simp: bcast_task_def herk_task_def issue_key_simps)

lemma sorted_wrt_before:
  "sorted_wrt (\<lambda>x y. f x < (f y :: nat)) xs \<Longrightarrow> a \<in> set xs \<Longrightarrow> b \<in> set xs \<Longrightarrow> f a < f b \<Longrightarrow>
   a \<in> set (takeWhile (\<lambda>x. x \<noteq> b) xs)"
proof (induction xs)
  case Nil
  then show ?case by simp
next
  case (Cons x xs)
  show ?case
  proof (cases "x = b")
    case True
    then have "\<forall>y\<in>set xs. f b < f y" using Cons.prems(1) by simp
    then show ?thesis using Cons.prems True by auto
  next
    case False
    then show ?thesis using Cons by auto
  qed
qed

lemma issued_before_task_list:
  "a \<in> set (task_list nt l) \<Longrightarrow> b \<in> set (task_list nt l) \<Longrightarrow> issue_key l a < issue_key l b \<Longrightarrow>
   a \<in> set (issued_before (task_list nt l) b)"
  unfolding issued_before_def
  by (rule sorted_wrt_before [OF sorted_task_list])

lemma act_tasks:
  "act (bcast_task l j) = Bcast_col (int j)"
  "act (herk_task k) = Herk_col (int k) (if k = 0 then Beta else One)"
  by (auto simp: bcast_task_def herk_task_def bcast_first_def bcast_ahead_def bcast_next_def
        herk_first_def herk_next_def)

lemma task_inject:
  "bcast_task l j = bcast_task l j' \<longleftrightarrow> j = j'"
  "herk_task k = herk_task k' \<longleftrightarrow> k = k'"
  "bcast_task l j \<noteq> herk_task k"
  "herk_task k \<noteq> bcast_task l j"
proof -
  have "j = j'" if "bcast_task l j = bcast_task l j'"
  proof -
    have "act (bcast_task l j) = act (bcast_task l j')" using that by simp
    then show ?thesis by (simp add: act_tasks(1))
  qed
  then show "bcast_task l j = bcast_task l j' \<longleftrightarrow> j = j'" by blast
  have "k = k'" if "herk_task k = herk_task k'"
  proof -
    have "act (herk_task k) = act (herk_task k')" using that by simp
    then show ?thesis by (simp add: act_tasks(2))
  qed
  then show "herk_task k = herk_task k' \<longleftrightarrow> k = k'" by blast
  have "act (bcast_task l j) \<noteq> act (herk_task k)" by (simp add: act_tasks)
  then show "bcast_task l j \<noteq> herk_task k" by metis
  then show "herk_task k \<noteq> bcast_task l j" by metis
qed

lemma task_list_member:
  "j < max 1 nt \<Longrightarrow> bcast_task l j \<in> set (task_list nt l)"
  "k < max 1 nt \<Longrightarrow> herk_task k \<in> set (task_list nt l)"
  unfolding set_task_list by blast+


lemma dep_tasks:
  "dep_out (bcast_task l j) = [Bcast_tok (int j)]"
  "dep_out (herk_task k) = [Gemm_tok (int k)]"
  "dep_in (herk_task k) = (if k = 0 then [Bcast_tok 0] else [Bcast_tok (int k), Gemm_tok (int k - 1)])"
  "dep_in (bcast_task l j) =
     (if j = 0 then [] else if j \<le> l then [Bcast_tok (int j - 1)]
      else [Gemm_tok (int j - int l - 1), Bcast_tok (int j - 1)])"
  by (auto simp: bcast_task_def herk_task_def bcast_first_def bcast_ahead_def bcast_next_def
        herk_first_def herk_next_def)

lemma conflict_tasks:
  "1 \<le> k \<Longrightarrow> conflict (herk_task (k - 1)) (herk_task k)"
  "conflict (bcast_task l k) (herk_task k)"
  "l < j \<Longrightarrow> conflict (herk_task (j - l - 1)) (bcast_task l j)"
  "1 \<le> j \<Longrightarrow> conflict (bcast_task l (j - 1)) (bcast_task l j)"
  by (auto simp: conflict_def dep_tasks of_nat_diff)

text \<open>What a task that starts has behind it.\<close>

lemma ready_herk:
  assumes k: "k < max 1 nt" and r: "ready (task_list nt l) fin (herk_task k)"
  shows "bcast_task l k \<in> set fin" and "1 \<le> k \<Longrightarrow> herk_task (k - 1) \<in> set fin"
proof -
  have hk: "herk_task k \<in> set (task_list nt l)" using k by (simp add: task_list_member)
  have "bcast_task l k \<in> set (task_list nt l)" using k by (simp add: task_list_member)
  then have "bcast_task l k \<in> set (issued_before (task_list nt l) (herk_task k))"
    using hk by (intro issued_before_task_list) (simp_all add: issue_key_tasks)
  then show "bcast_task l k \<in> set fin"
    using r conflict_tasks(2) by (auto simp: ready_def)
  assume k1: "1 \<le> k"
  then have "herk_task (k - 1) \<in> set (task_list nt l)" using k by (simp add: task_list_member)
  then have "herk_task (k - 1) \<in> set (issued_before (task_list nt l) (herk_task k))"
    using hk k1 by (intro issued_before_task_list) (simp_all add: issue_key_tasks)
  then show "herk_task (k - 1) \<in> set fin"
    using r conflict_tasks(1) [OF k1] by (auto simp: ready_def)
qed



text \<open>The kernel applications run in the order of the block columns.\<close>

lemma herk_inv_next:
  assumes inv: "herk_inv nt fin m" and k: "k < max 1 nt"
    and nf: "herk_task k \<notin> set fin" and r: "ready (task_list nt l) fin (herk_task k)"
  shows "k = m" and "herk_inv nt (herk_task k # fin) (Suc m)"
proof -
  have ge: "m \<le> k" using inv k nf by (auto simp: herk_inv_def)
  have "k \<le> m"
  proof (cases "1 \<le> k")
    case True
    then have "herk_task (k - 1) \<in> set fin" using ready_herk(2) [OF k r] by simp
    then have "k - 1 < m" using inv k by (auto simp: herk_inv_def)
    then show ?thesis by simp
  next
    case False
    then show ?thesis by simp
  qed
  then show km: "k = m" using ge by simp
  show "herk_inv nt (herk_task k # fin) (Suc m)"
    using inv k km by (auto simp: herk_inv_def task_inject less_Suc_eq)
qed

lemma herk_inv_bcast:
  "herk_inv nt fin m \<Longrightarrow> herk_inv nt (bcast_task l j # fin) m"
  by (simp add: herk_inv_def task_inject)

lemma herk_inv_complete:
  assumes "herk_inv nt fin m" "set (task_list nt l) \<subseteq> set fin"
  shows "m = max 1 nt"
proof -
  have "herk_task (max 1 nt - 1) \<in> set (task_list nt l)"
    by (rule task_list_member) simp
  then have "herk_task (max 1 nt - 1) \<in> set fin"
    using assms(2) by blast
  then have "max 1 nt - 1 < m" using assms(1) by (auto simp: herk_inv_def)
  then show ?thesis using assms(1) by (auto simp: herk_inv_def)
qed


lemma herk_inv_init: "herk_inv nt [] 0"
  by (simp add: herk_inv_def)


subsection \<open>The tiles after the panel steps\<close>

lemma fold_apply_on_host:
  "fold (\<lambda>k. apply_on_host (f k)) ks tle = tle\<lparr>origin := fold f ks (origin tle)\<rparr>"
  by (induction ks arbitrary: tle) (simp_all add: apply_on_host_def)

lemma fold_apply_on_device_resident:
  "workspace tle d = Some w \<Longrightarrow> \<not> origin_valid tle \<Longrightarrow>
   fold (\<lambda>k. apply_on_device d (f k)) ks tle = tle\<lparr>workspace := (workspace tle)(d := Some (fold f ks w))\<rparr>"
proof (induction ks arbitrary: tle w)
  case Nil
  then show ?case by (simp add: fun_upd_idem)
next
  case (Cons k ks)
  let ?t1 = "apply_on_device d (f k) tle"
  have t1: "?t1 = tle\<lparr>workspace := (workspace tle)(d := Some (f k w))\<rparr>"
    using Cons.prems by (simp add: apply_on_device_def)
  have "fold (\<lambda>k. apply_on_device d (f k)) (k # ks) tle =
          fold (\<lambda>k. apply_on_device d (f k)) ks ?t1" by simp
  also have "\<dots> = ?t1\<lparr>workspace := (workspace ?t1)(d := Some (fold f ks (f k w)))\<rparr>"
    by (rule Cons.IH) (simp_all add: t1 Cons.prems)
  also have "\<dots> = tle\<lparr>workspace := (workspace tle)(d := Some (fold f ks (f k w)))\<rparr>"
    by (simp add: t1)
  also have "\<dots> = tle\<lparr>workspace := (workspace tle)(d := Some (fold f (k # ks) w))\<rparr>"
    by simp
  finally show ?case .
qed

lemma fold_apply_on_device_stable:
  assumes "stable tle" "ks \<noteq> []"
  shows "fold (\<lambda>k. apply_on_device d (f k)) ks tle =
           tle\<lparr>origin_valid := False, workspace := (\<lambda>d. None)(d := Some (fold f ks (origin tle)))\<rparr>"
proof -
  obtain k ks' where ks: "ks = k # ks'" using assms(2) by (cases ks) auto
  let ?t1 = "apply_on_device d (f k) tle"
  have t1: "?t1 = tle\<lparr>origin_valid := False, workspace := (\<lambda>d. None)(d := Some (f k (origin tle)))\<rparr>"
    using assms(1) by (simp add: apply_on_device_def stable_def)
  have "fold (\<lambda>k. apply_on_device d (f k)) ks' ?t1 =
          ?t1\<lparr>workspace := (workspace ?t1)(d := Some (fold f ks' (f k (origin tle))))\<rparr>"
    by (rule fold_apply_on_device_resident) (simp_all add: t1)
  then show ?thesis by (simp add: ks t1)
qed

lemma fold_internal_herk:
  "fold (\<lambda>k. internal_herk env target alpha (int k) (panel_scale beta k)) ks C (i, j) =
     (if local_lower env i j
      then fold (\<lambda>k. tile_step target (tileDevice env i j)
                        (tile_herk env alpha (int k) (panel_scale beta k) (i, j))) ks (C (i, j))
      else C (i, j))"
  by (induction ks arbitrary: C) (simp_all add: internal_herk_def local_lower_def tile_step_def)

text \<open>A tile after the steps, the move to the host and the clearing of the workspace.\<close>

lemma finish_tile:
  assumes "stable tle" "ks \<noteq> []"
  shows "(tileMoveToHost d (fold (\<lambda>k. tile_step target d (f k)) ks tle))\<lparr>workspace := (\<lambda>d. None)\<rparr>
           = \<lparr>origin = fold f ks (origin tle), origin_valid = True, workspace = (\<lambda>d. None)\<rparr>"
proof (cases "target = Devices")
  case True
  then show ?thesis
    using fold_apply_on_device_stable [OF assms, of d f]
    by (simp add: tile_step_def tileMoveToHost_def)
next
  case False
  then show ?thesis
    using assms(1)
    by (simp add: tile_step_def fold_apply_on_host tileMoveToHost_def stable_def)
qed

subsection \<open>The flush loops and the run of a schedule\<close>

lemma flush_column_tiles:
  "distinct rows \<Longrightarrow>
   C_tiles (fold (\<lambda>i s. if tileIsLocal env i j
                  then s\<lparr>C_tiles := (C_tiles s)((i, j) := tileMoveToHost (tileDevice env i j) (C_tiles s (i, j))),
                         events := events s @ [Ev_tileMoveToHost i j (tileDevice env i j)]\<rparr>
                  else s) rows s) (i', j') =
     (if j' = j \<and> i' \<in> set rows \<and> tileIsLocal env i' j
      then tileMoveToHost (tileDevice env i' j) (C_tiles s (i', j'))
      else C_tiles s (i', j'))"
  by (induction rows arbitrary: s) auto

lemma flush_column_events:
  "events (fold (\<lambda>i s. if tileIsLocal env i j
                  then s\<lparr>C_tiles := (C_tiles s)((i, j) := tileMoveToHost (tileDevice env i j) (C_tiles s (i, j))),
                         events := events s @ [Ev_tileMoveToHost i j (tileDevice env i j)]\<rparr>
                  else s) rows s) =
     events s @ map (\<lambda>i. Ev_tileMoveToHost i j (tileDevice env i j))
                    (filter (\<lambda>i. tileIsLocal env i j) rows)"
  by (induction rows arbitrary: s) auto

lemma flush_column_received:
  "received (fold (\<lambda>i s. if tileIsLocal env i j
                  then s\<lparr>C_tiles := (C_tiles s)((i, j) := tileMoveToHost (tileDevice env i j) (C_tiles s (i, j))),
                         events := events s @ [Ev_tileMoveToHost i j (tileDevice env i j)]\<rparr>
                  else s) rows s) = received s"
  by (induction rows arbitrary: s) auto

lemma flush_columns_tiles:
  "distinct cols \<Longrightarrow>
   C_tiles (fold (flush_column env) cols s) (i, j) =
     (if j \<in> set cols \<and> local_lower env i j
      then tileMoveToHost (tileDevice env i j) (C_tiles s (i, j))
      else C_tiles s (i, j))"
proof (induction cols arbitrary: s)
  case Nil
  then show ?case by simp
next
  case (Cons c cols)
  have c: "C_tiles (flush_column env c s) (i, j) =
     (if j = c \<and> local_lower env i j
      then tileMoveToHost (tileDevice env i j) (C_tiles s (i, j))
      else C_tiles s (i, j))"
    unfolding flush_column_def
    by (subst flush_column_tiles) (auto simp: local_lower_def)
  show ?case using Cons c by auto
qed

lemma flush_columns_events:
  "events (fold (flush_column env) cols s) =
     events s @ concat (map (\<lambda>j. map (\<lambda>i. Ev_tileMoveToHost i j (tileDevice env i j))
                          (filter (\<lambda>i. tileIsLocal env i j) [j..<C_mt env])) cols)"
  by (induction cols arbitrary: s) (simp_all add: flush_column_def flush_column_events)

lemma flush_tiles_tiles:
  "C_tiles (flush_tiles env s) (i, j) =
     (if local_lower env i j
      then tileMoveToHost (tileDevice env i j) (C_tiles s (i, j))
      else C_tiles s (i, j))"
  unfolding flush_tiles_def
  by (subst flush_columns_tiles) (auto simp: local_lower_def)

lemma flush_tiles_events:
  "events (flush_tiles env s) = events s @ flush_events env"
  by (simp add: flush_tiles_def flush_columns_events flush_events_def)

lemma set_flush_events:
  "Ev_tileMoveToHost i j d \<in> set (flush_events env) \<longleftrightarrow>
     (local_lower env i j \<and> d = tileDevice env i j)"
  by (auto simp: flush_events_def local_lower_def)

text \<open>Running a valid schedule.\<close>

lemma run_valid_from:
  assumes "valid_from (task_list nt l) fin sched"
    and "herk_inv nt fin m"
    and "\<forall>j<max 1 nt. bcast_task l j \<in> set fin \<longrightarrow> int j \<in> received s"
  shows "\<exists>s'. run_tasks env target alpha beta sched s = Inr s'
     \<and> C_tiles s' = fold (\<lambda>k. internal_herk env target alpha (int k) (panel_scale beta k))
                       [m..<max 1 nt] (C_tiles s)
     \<and> events s' = events s @ map (\<lambda>t. Ev_task (act t)) sched"
  using assms
proof (induction sched arbitrary: fin m s)
  case Nil
  then have "m = max 1 nt" using herk_inv_complete by simp
  then show ?case by simp
next
  case (Cons t sched)
  then have t: "t \<in> set (task_list nt l)" "t \<notin> set fin" "ready (task_list nt l) fin t"
    and v: "valid_from (task_list nt l) (t # fin) sched" by simp_all
  from t(1) consider j where "j < max 1 nt" "t = bcast_task l j"
    | k where "k < max 1 nt" "t = herk_task k"
    by (auto simp: set_task_list)
  then show ?case
  proof cases
    case (1 j)
    let ?s1 = "s\<lparr>received := insert (int j) (received s),
                 events := events s @ [Ev_task (Bcast_col (int j))]\<rparr>"
    have inv': "herk_inv nt (t # fin) m" using Cons.prems(2) 1 by (simp add: herk_inv_bcast)
    have rec': "\<forall>j'<max 1 nt. bcast_task l j' \<in> set (t # fin) \<longrightarrow> int j' \<in> received ?s1"
      using Cons.prems(3) 1 by (auto simp: task_inject)
    from Cons.IH [OF v inv' rec'] show ?thesis using 1 by (simp add: act_tasks)
  next
    case (2 k)
    have km: "k = m" and inv': "herk_inv nt (t # fin) (Suc m)"
      using herk_inv_next [OF Cons.prems(2) 2(1)] t 2(2) by simp_all
    have "bcast_task l k \<in> set fin" using ready_herk(1) [OF 2(1)] t(3) 2(2) by simp
    then have rk: "int k \<in> received s" using Cons.prems(3) 2(1) by simp
    let ?s1 = "s\<lparr>C_tiles := internal_herk env target alpha (int k) (panel_scale beta k) (C_tiles s),
                 events := events s @ [Ev_task (act t)]\<rparr>"
    have ex: "exec_action env target alpha beta (act t) s = Inr ?s1"
      using rk 2(2) by (simp add: act_tasks panel_scale_def)
    have rec': "\<forall>j'<max 1 nt. bcast_task l j' \<in> set (t # fin) \<longrightarrow> int j' \<in> received ?s1"
      using Cons.prems(3) 2 by (auto simp: task_inject)
    have "m < max 1 nt" using km 2(1) by simp
    then have up: "[m..<max 1 nt] = m # [Suc m..<max 1 nt]" by (simp add: upt_conv_Cons)
    from Cons.IH [OF v inv' rec'] show ?thesis using ex km up by simp
  qed
qed

lemma run_valid_schedule:
  assumes "valid_schedule (task_list nt l) sched"
  shows "\<exists>s'. run_tasks env target alpha beta sched s = Inr s'
     \<and> C_tiles s' = fold (\<lambda>k. internal_herk env target alpha (int k) (panel_scale beta k))
                       [0..<max 1 nt] (C_tiles s)
     \<and> events s' = events s @ map (\<lambda>t. Ev_task (act t)) sched"
  using assms unfolding valid_schedule_def
  by (rule run_valid_from [OF _ herk_inv_init]) simp

subsection \<open>The result of a call\<close>




lemma in_range_nat:
  assumes "lookahead_in_range nt lookahead"
  obtains l where "lookahead = int l" "herk_tasks nt lookahead = Inr (task_list nt l)"
    "issue_order nt lookahead = task_list nt l"
proof -
  have "0 \<le> lookahead" using assms by (simp add: lookahead_in_range_def)
  then obtain l where l: "lookahead = int l" using nonneg_int_cases by blast
  have h: "herk_tasks nt lookahead = Inr (task_list nt l)"
    using assms unfolding l by (rule herk_tasks_eq)
  then have "issue_order nt lookahead = task_list nt l" by (simp add: issue_order_def)
  then show ?thesis using that l h by blast
qed


text \<open>The tasks that a call has issued are those of its lookahead.\<close>

lemma run_tasks_issued:
  "run_tasks env target alpha beta sched s = Inr s' \<Longrightarrow> issued s' = issued s"
proof (induction sched arbitrary: s)
  case Nil
  then show ?case by simp
next
  case (Cons t sched)
  then obtain s1 where s1: "exec_action env target alpha beta (act t) s = Inr s1"
    "run_tasks env target alpha beta sched s1 = Inr s'"
    by (auto split: sum.splits)
  have "issued s1 = issued s"
    using s1(1) by (cases "act t") (auto split: if_splits)
  then show ?case using Cons.IH [OF s1(2)] by simp
qed

lemma flush_column_issued: "issued (flush_column env j s) = issued s"
proof -
  have "issued (fold (\<lambda>i s. if tileIsLocal env i j
                  then s\<lparr>C_tiles := (C_tiles s)((i, j) := tileMoveToHost (tileDevice env i j) (C_tiles s (i, j))),
                         events := events s @ [Ev_tileMoveToHost i j (tileDevice env i j)]\<rparr>
                  else s) rows s) = issued s" for rows
    by (induction rows arbitrary: s) auto
  then show ?thesis by (simp add: flush_column_def)
qed

lemma flush_tiles_issued: "issued (flush_tiles env s) = issued s"
proof -
  have "issued (fold (flush_column env) cols s) = issued s" for cols
    by (induction cols arbitrary: s) (simp_all add: flush_column_issued)
  then show ?thesis by (simp add: flush_tiles_def)
qed

lemma specialization_herk_issued:
  assumes "specialization_herk env target alpha beta lookahead sched C = Inr s"
  shows "herk_tasks (A_nt env) lookahead = Inr (issued s)"
proof -
  from assms obtain ts s1 where ts: "herk_tasks (A_nt env) lookahead = Inr ts"
    and s1: "run_tasks env target alpha beta sched
               \<lparr>received = {}, C_tiles = C,
                events = (if target = Devices
                          then [Ev_allocateBatchArrays, Ev_reserveDeviceWorkspace] else []),
                issued = ts\<rparr> = Inr s1"
    and s: "s = (flush_tiles env s1)\<lparr>C_tiles := clearWorkspace (C_tiles (flush_tiles env s1)),
                                     events := events (flush_tiles env s1) @ [Ev_clearWorkspace]\<rparr>"
    by (auto simp: specialization_herk_def Let_def split: if_splits sum.splits)
  have "issued s = ts"
    using run_tasks_issued [OF s1] by (simp add: s flush_tiles_issued)
  then show ?thesis using ts by simp
qed

lemma herk_run_result:
  assumes mt: "A_mt env = C_mt env"
    and rng: "lookahead_in_range (A_nt env) lookahead"
    and sch: "valid_schedule (issue_order (A_nt env) lookahead) sched"
  shows "\<exists>s. specialization_herk env target alpha beta lookahead sched C = Inr s
     \<and> (\<forall>i j. C_tiles s (i, j) =
          (if local_lower env i j
           then (tileMoveToHost (tileDevice env i j)
                   (fold (\<lambda>k. tile_step target (tileDevice env i j)
                                (tile_herk env alpha (int k) (panel_scale beta k) (i, j)))
                         [0..<max 1 (A_nt env)] (C (i, j))))\<lparr>workspace := (\<lambda>d. None)\<rparr>
           else (C (i, j))\<lparr>workspace := (\<lambda>d. None)\<rparr>))
     \<and> events s = (if target = Devices then [Ev_allocateBatchArrays, Ev_reserveDeviceWorkspace] else [])
                    @ map (\<lambda>t. Ev_task (act t)) sched @ flush_events env @ [Ev_clearWorkspace]"
proof -
  let ?nt = "A_nt env"
  let ?pre = "(if target = Devices then [Ev_allocateBatchArrays, Ev_reserveDeviceWorkspace] else [])"
  from rng obtain l where l: "lookahead = int l" "herk_tasks ?nt lookahead = Inr (task_list ?nt l)"
    "issue_order ?nt lookahead = task_list ?nt l" by (rule in_range_nat)
  let ?s0 = "\<lparr>received = {}, C_tiles = C, events = ?pre, issued = task_list ?nt l\<rparr>"
  have v: "valid_schedule (task_list ?nt l) sched" using sch l(3) by simp
  obtain s1 where s1: "run_tasks env target alpha beta sched ?s0 = Inr s1"
    "C_tiles s1 = fold (\<lambda>k. internal_herk env target alpha (int k) (panel_scale beta k))
                       [0..<max 1 ?nt] (C_tiles ?s0)"
    "events s1 = events ?s0 @ map (\<lambda>t. Ev_task (act t)) sched"
    using run_valid_schedule [OF v, of env target alpha beta ?s0] by blast
  let ?s2 = "flush_tiles env s1"
  let ?s = "?s2\<lparr>C_tiles := clearWorkspace (C_tiles ?s2), events := events ?s2 @ [Ev_clearWorkspace]\<rparr>"
  have res: "specialization_herk env target alpha beta lookahead sched C = Inr ?s"
    using mt l(2) s1(1) by (simp add: specialization_herk_def Let_def)
  have tiles: "\<forall>i j. C_tiles ?s (i, j) =
          (if local_lower env i j
           then (tileMoveToHost (tileDevice env i j)
                   (fold (\<lambda>k. tile_step target (tileDevice env i j)
                                (tile_herk env alpha (int k) (panel_scale beta k) (i, j)))
                         [0..<max 1 ?nt] (C (i, j))))\<lparr>workspace := (\<lambda>d. None)\<rparr>
           else (C (i, j))\<lparr>workspace := (\<lambda>d. None)\<rparr>)"
    by (simp add: clearWorkspace_def flush_tiles_tiles s1(2) fold_internal_herk)
  have "events ?s = ?pre @ map (\<lambda>t. Ev_task (act t)) sched @ flush_events env @ [Ev_clearWorkspace]"
    by (simp add: flush_tiles_events s1(3))
  then show ?thesis using res tiles by blast
qed


subsection \<open>Dependences at the start of a task\<close>








lemma demo_issue3:
  "issue_order 3 1 =
     [bcast_first, bcast_ahead 1, herk_first, bcast_next 1 1, herk_next 1, herk_next 2]"
  by code_simp

text \<open>Facts about the small instance.\<close>

lemma demo_valid: "valid_schedule (issue_order (A_nt demo_env) 1) demo_sched"
  by code_simp

lemma demo_range: "lookahead_in_range (A_nt demo_env) 1"
  by (simp add: lookahead_in_range_def demo_env_def INT64_MAX_def)

lemma demo_stable: "\<forall>i j. local_lower demo_env i j \<longrightarrow> stable (demo_C (i, j))"
  by (simp add: demo_C_def stable_def)

subsection \<open>Claims about \<^verbatim>\<open>herk\<close>\<close>




text \<open>
  C5. When the options of the public \<^verbatim>\<open>herk\<close> have no entry for
  \<^verbatim>\<open>Option::Lookahead\<close>, the lookahead is 1 and the scheduler runs with it: the call
  is the call of \<^verbatim>\<open>internal::specialization::herk\<close> with lookahead 1, the tasks it
  issues are those of lookahead 1, and (for matching block rows and any order in which
  the runtime may execute these tasks) it returns after executing them, the flush
  loops and \<^verbatim>\<open>clearWorkspace\<close>. When the options have an entry, the same holds with
  the integer stored there.
\<close>

theorem herk_default_lookahead:
  "(opts Lookahead = None \<longrightarrow>
      herk_lookahead opts = 1
      \<and> herk env target alpha beta C opts sched = specialization_herk env target alpha beta 1 sched C
      \<and> (\<forall>s. herk env target alpha beta C opts sched = Inr s \<longrightarrow>
            herk_tasks (A_nt env) 1 = Inr (issued s)))
   \<and> (\<forall>v. opts Lookahead = Some v \<longrightarrow>
      herk_lookahead opts = i_field v
      \<and> herk env target alpha beta C opts sched =
          specialization_herk env target alpha beta (i_field v) sched C
      \<and> (\<forall>s. herk env target alpha beta C opts sched = Inr s \<longrightarrow>
            herk_tasks (A_nt env) (i_field v) = Inr (issued s)))
   \<and> (A_mt env = C_mt env \<and> lookahead_in_range (A_nt env) (herk_lookahead opts)
        \<and> valid_schedule (issue_order (A_nt env) (herk_lookahead opts)) sched \<longrightarrow>
      (\<exists>s. herk env target alpha beta C opts sched = Inr s
         \<and> issued s = issue_order (A_nt env) (herk_lookahead opts)
         \<and> events s =
             (if target = Devices then [Ev_allocateBatchArrays, Ev_reserveDeviceWorkspace] else [])
             @ map (\<lambda>t. Ev_task (act t)) sched @ flush_events env @ [Ev_clearWorkspace]))"
proof -
  have iss: "herk_tasks (A_nt env) (herk_lookahead opts) = Inr (issued s)"
    if "herk env target alpha beta C opts sched = Inr s" for s
    using that unfolding herk_def by (rule specialization_herk_issued)
  have a: "opts Lookahead = None \<longrightarrow>
      herk_lookahead opts = 1
      \<and> herk env target alpha beta C opts sched = specialization_herk env target alpha beta 1 sched C
      \<and> (\<forall>s. herk env target alpha beta C opts sched = Inr s \<longrightarrow>
            herk_tasks (A_nt env) 1 = Inr (issued s))"
  proof
    assume n: "opts Lookahead = None"
    then have l: "herk_lookahead opts = 1" by (simp add: herk_lookahead_def)
    show "herk_lookahead opts = 1
      \<and> herk env target alpha beta C opts sched = specialization_herk env target alpha beta 1 sched C
      \<and> (\<forall>s. herk env target alpha beta C opts sched = Inr s \<longrightarrow>
            herk_tasks (A_nt env) 1 = Inr (issued s))"
      using l iss by (simp add: herk_def)
  qed
  have b: "\<forall>v. opts Lookahead = Some v \<longrightarrow>
      herk_lookahead opts = i_field v
      \<and> herk env target alpha beta C opts sched =
          specialization_herk env target alpha beta (i_field v) sched C
      \<and> (\<forall>s. herk env target alpha beta C opts sched = Inr s \<longrightarrow>
            herk_tasks (A_nt env) (i_field v) = Inr (issued s))"
  proof (intro allI impI)
    fix v
    assume "opts Lookahead = Some v"
    then have l: "herk_lookahead opts = i_field v" by (simp add: herk_lookahead_def)
    show "herk_lookahead opts = i_field v
      \<and> herk env target alpha beta C opts sched =
          specialization_herk env target alpha beta (i_field v) sched C
      \<and> (\<forall>s. herk env target alpha beta C opts sched = Inr s \<longrightarrow>
            herk_tasks (A_nt env) (i_field v) = Inr (issued s))"
      using l iss by (simp add: herk_def)
  qed
  have c: "A_mt env = C_mt env \<and> lookahead_in_range (A_nt env) (herk_lookahead opts)
        \<and> valid_schedule (issue_order (A_nt env) (herk_lookahead opts)) sched \<longrightarrow>
      (\<exists>s. herk env target alpha beta C opts sched = Inr s
         \<and> issued s = issue_order (A_nt env) (herk_lookahead opts)
         \<and> events s =
             (if target = Devices then [Ev_allocateBatchArrays, Ev_reserveDeviceWorkspace] else [])
             @ map (\<lambda>t. Ev_task (act t)) sched @ flush_events env @ [Ev_clearWorkspace])"
  proof
    assume h: "A_mt env = C_mt env \<and> lookahead_in_range (A_nt env) (herk_lookahead opts)
        \<and> valid_schedule (issue_order (A_nt env) (herk_lookahead opts)) sched"
    then obtain s where s: "herk env target alpha beta C opts sched = Inr s"
      "events s =
             (if target = Devices then [Ev_allocateBatchArrays, Ev_reserveDeviceWorkspace] else [])
             @ map (\<lambda>t. Ev_task (act t)) sched @ flush_events env @ [Ev_clearWorkspace]"
      using herk_run_result [of env "herk_lookahead opts" sched target alpha beta C]
      unfolding herk_def by blast
    have "issued s = issue_order (A_nt env) (herk_lookahead opts)"
      using iss [OF s(1)] by (simp add: issue_order_def)
    then show "\<exists>s. herk env target alpha beta C opts sched = Inr s
         \<and> issued s = issue_order (A_nt env) (herk_lookahead opts)
         \<and> events s =
             (if target = Devices then [Ev_allocateBatchArrays, Ev_reserveDeviceWorkspace] else [])
             @ map (\<lambda>t. Ev_task (act t)) sched @ flush_events env @ [Ev_clearWorkspace]"
      using s by blast
  qed
  show ?thesis using a b c by blast
qed

theorem herk_default_lookahead_witness:
  "herk_lookahead Map.empty = 1
   \<and> herk_lookahead [Lookahead \<mapsto> Value 2] = 2
   \<and> (\<exists>s. herk demo_env HostTask 2 3 demo_C Map.empty demo_sched = Inr s
        \<and> issued s =
            [bcast_first, bcast_ahead 1, herk_first, bcast_next 1 1, herk_next 1, herk_next 2]
        \<and> events s =
            [Ev_task (Bcast_col 0), Ev_task (Herk_col 0 Beta), Ev_task (Bcast_col 1),
             Ev_task (Herk_col 1 One), Ev_task (Bcast_col 2), Ev_task (Herk_col 2 One),
             Ev_tileMoveToHost 0 0 0, Ev_tileMoveToHost 1 0 1, Ev_tileMoveToHost 1 1 0,
             Ev_clearWorkspace])
   \<and> issue_order 3 1 \<noteq> issue_order 3 0"
proof -
  note th = herk_default_lookahead [of Map.empty demo_env HostTask 2 3 demo_C demo_sched]
  note th2 = herk_default_lookahead [of "[Lookahead \<mapsto> Value 2]" demo_env HostTask 2 3 demo_C demo_sched]
  have l1: "herk_lookahead Map.empty = 1" using th by simp
  have l2: "herk_lookahead [Lookahead \<mapsto> Value 2] = 2" using th2 by simp
  have mt: "A_mt demo_env = C_mt demo_env" by (simp add: demo_env_def)
  have nt: "A_nt demo_env = 3" by (simp add: demo_env_def)
  have fe: "flush_events demo_env =
      [Ev_tileMoveToHost 0 0 0, Ev_tileMoveToHost 1 0 1, Ev_tileMoveToHost 1 1 0]"
    by (simp add: flush_events_def demo_env_def numeral_2_eq_2)
  have ev: "map (\<lambda>t. Ev_task (act t)) demo_sched =
      [Ev_task (Bcast_col 0), Ev_task (Herk_col 0 Beta), Ev_task (Bcast_col 1),
       Ev_task (Herk_col 1 One), Ev_task (Bcast_col 2), Ev_task (Herk_col 2 One)]"
    by (simp add: demo_sched_def bcast_first_def herk_first_def bcast_ahead_def herk_next_def
          bcast_next_def)
  have pre: "A_mt demo_env = C_mt demo_env \<and> lookahead_in_range (A_nt demo_env) (herk_lookahead Map.empty)
        \<and> valid_schedule (issue_order (A_nt demo_env) (herk_lookahead Map.empty)) demo_sched"
    using mt demo_range demo_valid by (simp add: l1)
  obtain s where s: "herk demo_env HostTask 2 3 demo_C Map.empty demo_sched = Inr s"
    "issued s = issue_order (A_nt demo_env) (herk_lookahead Map.empty)"
    "events s =
       (if HostTask = Devices then [Ev_allocateBatchArrays, Ev_reserveDeviceWorkspace] else [])
       @ map (\<lambda>t. Ev_task (act t)) demo_sched @ flush_events demo_env @ [Ev_clearWorkspace]"
    using th pre by blast
  have i: "issued s =
      [bcast_first, bcast_ahead 1, herk_first, bcast_next 1 1, herk_next 1, herk_next 2]"
    using s(2) by (simp add: l1 nt demo_issue3)
  have e: "events s =
            [Ev_task (Bcast_col 0), Ev_task (Herk_col 0 Beta), Ev_task (Bcast_col 1),
             Ev_task (Herk_col 1 One), Ev_task (Bcast_col 2), Ev_task (Herk_col 2 One),
             Ev_tileMoveToHost 0 0 0, Ev_tileMoveToHost 1 0 1, Ev_tileMoveToHost 1 1 0,
             Ev_clearWorkspace]"
    using s(3) by (simp add: fe ev)
  have d: "issue_order 3 1 \<noteq> issue_order 3 0" by code_simp
  show ?thesis using l1 l2 s(1) i e d by blast
qed



text \<open>
  C7. For every target, a lookahead in range and every order in which the runtime may
  execute the tasks: the call returns; its events are the tasks, then one
  \<^verbatim>\<open>tileMoveToHost\<close> for exactly the local tiles of the lower triangle, each from the
  device of the tile, then \<^verbatim>\<open>clearWorkspace\<close>; on return no tile has a workspace
  copy. If the tiles that the update writes are stable on entry, each of them is stable
  on return and its origin holds the updated content. A host-target step that follows
  reads the origin.
\<close>

theorem herk_flush:
  assumes "A_mt env = C_mt env"
    and "lookahead_in_range (A_nt env) lookahead"
    and "valid_schedule (issue_order (A_nt env) lookahead) sched"
  shows "\<exists>s. specialization_herk env target alpha beta lookahead sched C = Inr s
     \<and> events s =
         (if target = Devices then [Ev_allocateBatchArrays, Ev_reserveDeviceWorkspace] else [])
         @ map (\<lambda>t. Ev_task (act t)) sched @ flush_events env @ [Ev_clearWorkspace]
     \<and> (\<forall>i j d. (Ev_tileMoveToHost i j d \<in> set (flush_events env)) =
                  (local_lower env i j \<and> d = tileDevice env i j))
     \<and> (\<forall>i j. workspace (C_tiles s (i, j)) = (\<lambda>d. None))
     \<and> ((\<forall>i j. local_lower env i j \<longrightarrow> stable (C (i, j))) \<longrightarrow>
          (\<forall>i j. local_lower env i j \<longrightarrow>
             stable (C_tiles s (i, j))
             \<and> origin (C_tiles s (i, j)) =
                 fold (\<lambda>k. tile_herk env alpha (int k) (panel_scale beta k) (i, j))
                      [0..<max 1 (A_nt env)] (origin (C (i, j)))))
     \<and> (\<forall>i j k b. local_lower env i j \<longrightarrow>
          origin (internal_herk env HostTask alpha k b (C_tiles s) (i, j)) =
            tile_herk env alpha k b (i, j) (origin (C_tiles s (i, j))))"
proof -
  obtain s where s: "specialization_herk env target alpha beta lookahead sched C = Inr s"
    "\<forall>i j. C_tiles s (i, j) =
          (if local_lower env i j
           then (tileMoveToHost (tileDevice env i j)
                   (fold (\<lambda>k. tile_step target (tileDevice env i j)
                                (tile_herk env alpha (int k) (panel_scale beta k) (i, j)))
                         [0..<max 1 (A_nt env)] (C (i, j))))\<lparr>workspace := (\<lambda>d. None)\<rparr>
           else (C (i, j))\<lparr>workspace := (\<lambda>d. None)\<rparr>)"
    "events s =
         (if target = Devices then [Ev_allocateBatchArrays, Ev_reserveDeviceWorkspace] else [])
         @ map (\<lambda>t. Ev_task (act t)) sched @ flush_events env @ [Ev_clearWorkspace]"
    using herk_run_result [OF assms, of target alpha beta C] by blast
  have ne: "[0..<max 1 (A_nt env)] \<noteq> []" by simp
  have w: "\<forall>i j. workspace (C_tiles s (i, j)) = (\<lambda>d. None)"
    using s(2) by simp
  have a: "stable (C_tiles s (i, j))
          \<and> origin (C_tiles s (i, j)) =
              fold (\<lambda>k. tile_herk env alpha (int k) (panel_scale beta k) (i, j))
                   [0..<max 1 (A_nt env)] (origin (C (i, j)))"
    if st: "\<forall>i j. local_lower env i j \<longrightarrow> stable (C (i, j))" and ll: "local_lower env i j" for i j
  proof -
    have stab: "stable (C (i, j))" using st ll by simp
    have "C_tiles s (i, j) =
      (tileMoveToHost (tileDevice env i j)
         (fold (\<lambda>k. tile_step target (tileDevice env i j)
                      (tile_herk env alpha (int k) (panel_scale beta k) (i, j)))
               [0..<max 1 (A_nt env)] (C (i, j))))\<lparr>workspace := (\<lambda>d. None)\<rparr>"
      using ll s(2) by simp
    also have "\<dots> = \<lparr>origin = fold (\<lambda>k. tile_herk env alpha (int k) (panel_scale beta k) (i, j))
                                    [0..<max 1 (A_nt env)] (origin (C (i, j))),
                        origin_valid = True, workspace = (\<lambda>d. None)\<rparr>"
      by (rule finish_tile [OF stab ne])
    finally show ?thesis by (simp add: stable_def)
  qed
  have c: "\<forall>i j k b. local_lower env i j \<longrightarrow>
          origin (internal_herk env HostTask alpha k b (C_tiles s) (i, j)) =
            tile_herk env alpha k b (i, j) (origin (C_tiles s (i, j)))"
    by (simp add: internal_herk_def local_lower_def apply_on_host_def)
  have f: "\<forall>i j d. (Ev_tileMoveToHost i j d \<in> set (flush_events env)) =
                  (local_lower env i j \<and> d = tileDevice env i j)"
    by (simp add: set_flush_events)
  have a': "(\<forall>i j. local_lower env i j \<longrightarrow> stable (C (i, j))) \<longrightarrow>
          (\<forall>i j. local_lower env i j \<longrightarrow>
             stable (C_tiles s (i, j))
             \<and> origin (C_tiles s (i, j)) =
                 fold (\<lambda>k. tile_herk env alpha (int k) (panel_scale beta k) (i, j))
                      [0..<max 1 (A_nt env)] (origin (C (i, j))))"
    using a by blast
  show ?thesis
    by (rule exI [of _ s]) (intro conjI s(1) s(3) f w a' c)
qed

theorem herk_flush_witness:
  "\<exists>s. specialization_herk demo_env Devices 2 3 1 demo_sched demo_C = Inr s
     \<and> stable (C_tiles s (1, 0)) \<and> origin (C_tiles s (1, 0)) = 27
     \<and> workspace (C_tiles s (1, 0)) = (\<lambda>d. None)
     \<and> events s =
         [Ev_allocateBatchArrays, Ev_reserveDeviceWorkspace,
          Ev_task (Bcast_col 0), Ev_task (Herk_col 0 Beta), Ev_task (Bcast_col 1),
          Ev_task (Herk_col 1 One), Ev_task (Bcast_col 2), Ev_task (Herk_col 2 One),
          Ev_tileMoveToHost 0 0 0, Ev_tileMoveToHost 1 0 1, Ev_tileMoveToHost 1 1 0,
          Ev_clearWorkspace]"
proof -
  have mt: "A_mt demo_env = C_mt demo_env" by (simp add: demo_env_def)
  have ll: "local_lower demo_env 1 0" by (simp add: local_lower_def demo_env_def)
  have fe: "flush_events demo_env =
      [Ev_tileMoveToHost 0 0 0, Ev_tileMoveToHost 1 0 1, Ev_tileMoveToHost 1 1 0]"
    by (simp add: flush_events_def demo_env_def numeral_2_eq_2)
  have ev: "map (\<lambda>t. Ev_task (act t)) demo_sched =
      [Ev_task (Bcast_col 0), Ev_task (Herk_col 0 Beta), Ev_task (Bcast_col 1),
       Ev_task (Herk_col 1 One), Ev_task (Bcast_col 2), Ev_task (Herk_col 2 One)]"
    by (simp add: demo_sched_def bcast_first_def herk_first_def bcast_ahead_def herk_next_def
          bcast_next_def)
  have val: "fold (\<lambda>k. tile_herk demo_env 2 (int k) (panel_scale 3 k) (1, 0))
                   [0..<max 1 (A_nt demo_env)] (origin (demo_C (1, 0))) = 27"
    by (simp add: demo_env_def demo_C_def panel_scale_def numeral_3_eq_3)
  obtain s where s: "specialization_herk demo_env Devices 2 3 1 demo_sched demo_C = Inr s"
    "(\<forall>i j. local_lower demo_env i j \<longrightarrow> stable (demo_C (i, j))) \<longrightarrow>
       (\<forall>i j. local_lower demo_env i j \<longrightarrow>
          stable (C_tiles s (i, j))
          \<and> origin (C_tiles s (i, j)) =
              fold (\<lambda>k. tile_herk demo_env 2 (int k) (panel_scale 3 k) (i, j))
                   [0..<max 1 (A_nt demo_env)] (origin (demo_C (i, j))))"
    "\<forall>i j. workspace (C_tiles s (i, j)) = (\<lambda>d. None)"
    "events s =
         (if Devices = Devices then [Ev_allocateBatchArrays, Ev_reserveDeviceWorkspace] else [])
         @ map (\<lambda>t. Ev_task (act t)) demo_sched @ flush_events demo_env @ [Ev_clearWorkspace]"
    using herk_flush [OF mt demo_range demo_valid, of Devices 2 3 demo_C] by blast
  have "stable (C_tiles s (1, 0)) \<and> origin (C_tiles s (1, 0)) = 27"
    using s(2) demo_stable ll val by simp
  moreover have "workspace (C_tiles s (1, 0)) = (\<lambda>d. None)" using s(3) by blast
  moreover have "events s =
         [Ev_allocateBatchArrays, Ev_reserveDeviceWorkspace,
          Ev_task (Bcast_col 0), Ev_task (Herk_col 0 Beta), Ev_task (Bcast_col 1),
          Ev_task (Herk_col 1 One), Ev_task (Bcast_col 2), Ev_task (Herk_col 2 One),
          Ev_tileMoveToHost 0 0 0, Ev_tileMoveToHost 1 0 1, Ev_tileMoveToHost 1 1 0,
          Ev_clearWorkspace]"
    using s(4) fe ev by simp
  ultimately show ?thesis using s(1) by blast
qed

end
